theory Spec2Isabelle
  imports Main "HOL-Library.Sublist" "HOL-Library.Word"
begin

unbundle bit_operations_syntax

section \<open>Python values\<close>

subsection \<open>Strings\<close>

text \<open>
  A Python \<open>str\<close> is a sequence of Unicode code points. A code point is a natural number here,
  so that \<open>str.strip\<close>, which removes every Unicode white-space character, is modelled on all
  of them. \<open>py\<close> reads an ASCII literal of the source.
\<close>

type_synonym pystr = "nat list"

definition py :: "string \<Rightarrow> pystr" where
  "py s = map of_char s"

text \<open>\<open>str.isspace\<close> on one character: the 29 code points of CPython's white-space table.\<close>

definition isspace :: "nat \<Rightarrow> bool" where
  "isspace c \<longleftrightarrow>
     (9 \<le> c \<and> c \<le> 13) \<or> (28 \<le> c \<and> c \<le> 32) \<or> c = 133 \<or> c = 160 \<or> c = 5760 \<or>
     (8192 \<le> c \<and> c \<le> 8202) \<or> c = 8232 \<or> c = 8233 \<or> c = 8239 \<or> c = 8287 \<or> c = 12288"

definition lstrip :: "(nat \<Rightarrow> bool) \<Rightarrow> pystr \<Rightarrow> pystr" where
  "lstrip P s = dropWhile P s"

definition rstrip :: "(nat \<Rightarrow> bool) \<Rightarrow> pystr \<Rightarrow> pystr" where
  "rstrip P s = rev (dropWhile P (rev s))"

text \<open>\<open>s.strip()\<close> with no argument.\<close>

definition strip :: "pystr \<Rightarrow> pystr" where
  "strip s = rstrip isspace (lstrip isspace s)"

text \<open>\<open>s.startswith(p)\<close>, \<open>s.endswith(p)\<close>, \<open>c in s\<close>.\<close>

definition startswith :: "pystr \<Rightarrow> pystr \<Rightarrow> bool" where
  "startswith s p = prefix p s"

definition endswith :: "pystr \<Rightarrow> pystr \<Rightarrow> bool" where
  "endswith s p = suffix p s"

definition contains :: "pystr \<Rightarrow> nat \<Rightarrow> bool" where
  "contains s c = (c \<in> set s)"

text \<open>\<open>s.find(c, start)\<close> for a one-character \<open>c\<close>: the first index at or after \<open>start\<close>, or \<open>-1\<close>.\<close>

definition find_from :: "pystr \<Rightarrow> nat \<Rightarrow> nat \<Rightarrow> int" where
  "find_from s c start =
     (if c \<in> set (drop start s)
      then int (start + length (takeWhile (\<lambda>x. x \<noteq> c) (drop start s)))
      else - 1)"

definition find :: "pystr \<Rightarrow> nat \<Rightarrow> int" where
  "find s c = find_from s c 0"

text \<open>The slice \<open>s[a:b]\<close> for non-negative \<open>a\<close> and \<open>b\<close>, and \<open>s.replace(c, "")\<close>.\<close>

definition slice :: "'a list \<Rightarrow> nat \<Rightarrow> nat \<Rightarrow> 'a list" where
  "slice s a b = drop a (take b s)"

definition remove_char :: "nat \<Rightarrow> pystr \<Rightarrow> pystr" where
  "remove_char c s = filter (\<lambda>x. x \<noteq> c) s"

text \<open>
  \<open>s.partition(sep)\<close> for a one-character separator: the part before the first occurrence,
  the separator, the part after it; the whole string and two empty strings when it is absent.
\<close>

definition partition_str :: "pystr \<Rightarrow> nat \<Rightarrow> pystr \<times> pystr \<times> pystr" where
  "partition_str s sep =
     (if sep \<in> set s
      then (takeWhile (\<lambda>x. x \<noteq> sep) s, [sep], tl (dropWhile (\<lambda>x. x \<noteq> sep) s))
      else (s, [], []))"

text \<open>\<open>s.split(sep, 1)\<close> where the caller has checked that \<open>sep\<close> occurs in \<open>s\<close>.\<close>

definition split1 :: "pystr \<Rightarrow> nat \<Rightarrow> pystr \<times> pystr" where
  "split1 s sep = (takeWhile (\<lambda>x. x \<noteq> sep) s, tl (dropWhile (\<lambda>x. x \<noteq> sep) s))"

definition isascii :: "nat \<Rightarrow> bool" where
  "isascii c \<longleftrightarrow> c < 128"

text \<open>\<open>c.isalpha()\<close> is used on ASCII characters only (behind \<open>c.isascii()\<close>).\<close>

definition isalpha_ascii :: "nat \<Rightarrow> bool" where
  "isalpha_ascii c \<longleftrightarrow> (65 \<le> c \<and> c \<le> 90) \<or> (97 \<le> c \<and> c \<le> 122)"

text \<open>\<open>s.lower()\<close> is used on strings of \<open>scheme_chars\<close> only, all ASCII.\<close>

definition lower_ascii :: "pystr \<Rightarrow> pystr" where
  "lower_ascii s = map (\<lambda>c. if 65 \<le> c \<and> c \<le> 90 then c + 32 else c) s"

text \<open>\<open>str(n)\<close> for an integer: its decimal digits.\<close>

function str_nat :: "nat \<Rightarrow> pystr" where
  "str_nat n = (if n < 10 then [48 + n] else str_nat (n div 10) @ [48 + n mod 10])"
  by pat_completeness auto
termination
  by (relation "measure (\<lambda>n. n)") auto

definition str_int :: "int \<Rightarrow> pystr" where
  "str_int i = (if i < 0 then 45 # str_nat (nat (- i)) else str_nat (nat i))"

subsection \<open>Decoded JSON\<close>

text \<open>
  What \<open>response.json()\<close> returns: \<open>None\<close>, a \<open>bool\<close>, an unbounded \<open>int\<close>, a \<open>float\<close> (kept as
  its 64 bits), a \<open>str\<close>, a \<open>list\<close> or a \<open>dict\<close> with string keys. A \<open>dict\<close> is the list of its
  items in insertion order; its keys are distinct, and \<open>map_of\<close> looks a key up.
\<close>

datatype json =
    JNull
  | JBool bool
  | JInt int
  | JFloat "64 word"
  | JStr pystr
  | JArr "json list"
  | JObj "(pystr \<times> json) list"

text \<open>Exceptions: the classes the program meets, with \<open>str(e)\<close> where the program prints it.\<close>

datatype exc =
    HTTPError pystr
  | ConnectionError pystr
  | Timeout pystr
  | RequestException pystr
  | RequestsJSONDecodeError pystr
  | ValueError pystr
  | AttributeError
  | TypeError
  | KeyError
  | IndexError
  | ZeroDivisionError

text \<open>
  \<open>requests.exceptions.RequestException\<close> is the base class of \<open>HTTPError\<close>, \<open>ConnectionError\<close>
  and \<open>Timeout\<close>. The \<open>JSONDecodeError\<close> of requests (release 2.27 and later) derives from both
  \<open>RequestException\<close> and \<open>ValueError\<close>; earlier releases raise a plain \<open>ValueError\<close>.
\<close>

fun is_RequestException :: "exc \<Rightarrow> bool" where
  "is_RequestException (HTTPError _) = True"
| "is_RequestException (ConnectionError _) = True"
| "is_RequestException (Timeout _) = True"
| "is_RequestException (RequestException _) = True"
| "is_RequestException (RequestsJSONDecodeError _) = True"
| "is_RequestException _ = False"

fun is_ValueError :: "exc \<Rightarrow> bool" where
  "is_ValueError (RequestsJSONDecodeError _) = True"
| "is_ValueError (ValueError _) = True"
| "is_ValueError _ = False"

fun str_exc :: "exc \<Rightarrow> pystr" where
  "str_exc (HTTPError m) = m"
| "str_exc (ConnectionError m) = m"
| "str_exc (Timeout m) = m"
| "str_exc (RequestException m) = m"
| "str_exc (RequestsJSONDecodeError m) = m"
| "str_exc (ValueError m) = m"
| "str_exc _ = []"

text \<open>
  A \<open>requests.Response\<close>: the status line, the final URL, and what \<open>response.json()\<close> does on
  the body (\<open>Inr\<close> the decoded value, \<open>Inl\<close> the exception the decoder raises).
\<close>

record response =
  status_code :: nat
  reason :: pystr
  url :: pystr
  json_body :: "exc + json"

text \<open>
  Everything outside the program: the host validation and the Unicode normalisation that
  \<open>urlsplit\<close> calls (\<open>_check_bracketed_host\<close> returning without raising,
  \<open>unicodedata.normalize('NFKC', _)\<close>), \<open>str\<close> of a float, list or dict, the network behind
  \<open>requests.get(api_url, params=params, timeout=10)\<close> (\<open>Inl\<close> the exception it raises), and
  the value of the column slider.
\<close>

record world =
  bracketed_host_ok :: "pystr \<Rightarrow> bool"
  nfkc :: "pystr \<Rightarrow> pystr"
  repr_value :: "json \<Rightarrow> pystr"
  requests_get :: "pystr \<Rightarrow> (pystr \<times> int) list \<Rightarrow> exc + response"
  slider :: nat

subsection \<open>Operations of Python on decoded JSON\<close>

text \<open>Truth value, as \<open>if x:\<close> tests it. A float is false when it is \<open>0.0\<close> or \<open>-0.0\<close>.\<close>

fun truthy :: "json \<Rightarrow> bool" where
  "truthy JNull = False"
| "truthy (JBool b) = b"
| "truthy (JInt i) = (i \<noteq> 0)"
| "truthy (JFloat f) = (f AND 0x7FFFFFFFFFFFFFFF \<noteq> 0)"
| "truthy (JStr s) = (s \<noteq> [])"
| "truthy (JArr xs) = (xs \<noteq> [])"
| "truthy (JObj kvs) = (kvs \<noteq> [])"

text \<open>\<open>x.get(key, default)\<close>: only a \<open>dict\<close> has the method.\<close>

fun py_get :: "json \<Rightarrow> pystr \<Rightarrow> json \<Rightarrow> exc + json" where
  "py_get (JObj kvs) k d = (case map_of kvs k of Some v \<Rightarrow> Inr v | None \<Rightarrow> Inr d)"
| "py_get _ k d = Inl AttributeError"

text \<open>
  \<open>for x in v\<close>: the elements of a list, the keys of a dict, the characters of a string;
  nothing else is iterable.
\<close>

fun py_iter :: "json \<Rightarrow> exc + json list" where
  "py_iter (JArr xs) = Inr xs"
| "py_iter (JObj kvs) = Inr (map (\<lambda>kv. JStr (fst kv)) kvs)"
| "py_iter (JStr s) = Inr (map (\<lambda>c. JStr [c]) s)"
| "py_iter _ = Inl TypeError"

text \<open>\<open>v[0]\<close>. A dict decoded from JSON has string keys only, so the key \<open>0\<close> is never in it.\<close>

fun py_first :: "json \<Rightarrow> exc + json" where
  "py_first (JArr []) = Inl IndexError"
| "py_first (JArr (x # xs)) = Inr x"
| "py_first (JStr []) = Inl IndexError"
| "py_first (JStr (c # s)) = Inr (JStr [c])"
| "py_first (JObj kvs) = Inl KeyError"
| "py_first _ = Inl TypeError"

fun py_len :: "json \<Rightarrow> exc + nat" where
  "py_len (JArr xs) = Inr (length xs)"
| "py_len (JObj kvs) = Inr (length kvs)"
| "py_len (JStr s) = Inr (length s)"
| "py_len _ = Inl TypeError"

text \<open>What \<open>{v}\<close> in an f-string inserts: \<open>str(v)\<close>.\<close>

fun py_str :: "world \<Rightarrow> json \<Rightarrow> pystr" where
  "py_str w (JStr s) = s"
| "py_str w JNull = py ''None''"
| "py_str w (JBool b) = (if b then py ''True'' else py ''False'')"
| "py_str w (JInt i) = str_int i"
| "py_str w v = repr_value w v"

text \<open>
  \<open>Response.raise_for_status\<close> of requests raises \<open>HTTPError\<close> for a status from 400 to 599
  and returns for every other status.
\<close>

definition raise_for_status :: "response \<Rightarrow> exc option" where
  "raise_for_status r =
     (if 400 \<le> status_code r \<and> status_code r < 500
      then Some (HTTPError (str_nat (status_code r) @ py '' Client Error: '' @ reason r @
                            py '' for url: '' @ url r))
      else if 500 \<le> status_code r \<and> status_code r < 600
      then Some (HTTPError (str_nat (status_code r) @ py '' Server Error: '' @ reason r @
                            py '' for url: '' @ url r))
      else None)"

section \<open>\<open>urllib.parse.urlparse\<close>\<close>

text \<open>
  \<open>urlsplit\<close> of CPython 3.11, for a \<open>str\<close> argument and the default \<open>scheme=''\<close>,
  \<open>allow_fragments=True\<close>. \<open>urlparse\<close> calls it and keeps its scheme and netloc.
\<close>

record split_result =
  scheme :: pystr
  netloc :: pystr
  path :: pystr
  query :: pystr
  fragment :: pystr

definition scheme_chars :: pystr where
  "scheme_chars = py (''abcdefghijklmnopqrstuvwxyz'' @ ''ABCDEFGHIJKLMNOPQRSTUVWXYZ'' @ ''0123456789'' @ ''+-.'')"

text \<open>\<open>_WHATWG_C0_CONTROL_OR_SPACE\<close>: the code points 0 to 32.\<close>

definition whatwg_c0_control_or_space :: "nat \<Rightarrow> bool" where
  "whatwg_c0_control_or_space c \<longleftrightarrow> c \<le> 32"

definition splitnetloc :: "pystr \<Rightarrow> nat \<Rightarrow> pystr \<times> pystr" where
  "splitnetloc u start =
     (let delim = fold (\<lambda>c delim. let wdelim = find_from u c start
                                  in if wdelim \<ge> 0 then min delim (nat wdelim) else delim)
                       (py ''/?#'') (length u)
      in (slice u start delim, drop delim u))"

text \<open>\<open>_checknetloc\<close>: \<open>True\<close> when it raises \<open>ValueError\<close>.\<close>

definition checknetloc_raises :: "world \<Rightarrow> pystr \<Rightarrow> bool" where
  "checknetloc_raises w nl =
     (if nl = [] \<or> list_all isascii nl then False
      else let n = remove_char 63 (remove_char 35 (remove_char 58 (remove_char 64 nl)));
               netloc2 = nfkc w n
           in if n = netloc2 then False
              else list_ex (\<lambda>c. contains netloc2 c) (py ''/?#@:''))"

text \<open>The end of \<open>urlsplit\<close>: the fragment and the query are cut off, the netloc is checked.\<close>

definition urlsplit_tail :: "world \<Rightarrow> pystr \<Rightarrow> pystr \<Rightarrow> pystr \<Rightarrow> exc + split_result" where
  "urlsplit_tail w sch nl url4 =
     (let (url5, frag) = (if contains url4 35 then split1 url4 35 else (url4, []));
          (url6, qry) = (if contains url5 63 then split1 url5 63 else (url5, []))
      in if checknetloc_raises w nl
         then Inl (ValueError (py ''netloc '' @ [39] @ nl @ [39] @
                               py '' contains invalid characters under NFKC normalization''))
         else Inr \<lparr>scheme = sch, netloc = nl, path = url6, query = qry, fragment = frag\<rparr>)"

text \<open>
  The middle of \<open>urlsplit\<close>, from \<open>if url[:2] == '//'\<close> on, the scheme being split off.
  \<open>_check_bracketed_host\<close> raises \<open>ValueError\<close> with one of several messages; the model
  keeps the class and one fixed message.
\<close>

definition urlsplit_netloc :: "world \<Rightarrow> pystr \<Rightarrow> pystr \<Rightarrow> exc + split_result" where
  "urlsplit_netloc w sch url3 =
     (if take 2 url3 = py ''//''
      then (let (nl, url4) = splitnetloc url3 2
            in if (contains nl 91 \<and> \<not> contains nl 93) \<or> (contains nl 93 \<and> \<not> contains nl 91)
               then Inl (ValueError (py ''Invalid IPv6 URL''))
               else if contains nl 91 \<and> contains nl 93 \<and>
                       \<not> bracketed_host_ok w
                            (fst (partition_str (snd (snd (partition_str nl 91))) 93))
               then Inl (ValueError (py ''invalid bracketed host''))
               else urlsplit_tail w sch nl url4)
      else urlsplit_tail w sch [] url3)"

definition urlsplit :: "world \<Rightarrow> pystr \<Rightarrow> exc + split_result" where
  "urlsplit w url0 =
     (let url1 = lstrip whatwg_c0_control_or_space url0;
          url2 = remove_char 10 (remove_char 13 (remove_char 9 url1));
          i = find url2 58
      in if i > 0 \<and> isascii (hd url2) \<and> isalpha_ascii (hd url2)
            \<and> list_all (\<lambda>c. contains scheme_chars c) (take (nat i) url2)
         then urlsplit_netloc w (lower_ascii (take (nat i) url2)) (drop (nat i + 1) url2)
         else urlsplit_netloc w [] url2)"

section \<open>The program\<close>

subsection \<open>\<open>clean_shopify_url\<close>\<close>

definition clean_shopify_url :: "world \<Rightarrow> pystr \<Rightarrow> exc + pystr" where
  "clean_shopify_url w url_in =
     (let u1 = strip url_in;
          u2 = (if \<not> (startswith u1 (py ''http://'') \<or> startswith u1 (py ''https://''))
                then py ''https://'' @ u1 else u1)
      in case urlsplit w u2 of
           Inl e \<Rightarrow> Inl e
         | Inr parsed \<Rightarrow> Inr (scheme parsed @ py ''://'' @ netloc parsed))"

subsection \<open>What the user sees\<close>

text \<open>
  The calls into Streamlit, in the order they are made. \<open>StCell idx m\<close> is
  \<open>st.markdown(m, unsafe_allow_html=True)\<close> inside \<open>with cols[idx]\<close>. A run of the script
  yields the calls made and the exception that ended it, if one did.
\<close>

datatype ui =
    StSetPageConfig
  | StTitle pystr
  | StMarkdown pystr
  | StTextInput
  | StSpinner pystr
  | StError pystr
  | StSuccess pystr
  | StWarning pystr
  | StSlider nat nat nat
  | StColumns nat
  | StCell nat pystr

subsection \<open>\<open>fetch_shopify_products\<close>\<close>

definition api_url :: "pystr \<Rightarrow> pystr" where
  "api_url base_url =
     (let clean_url = rstrip (\<lambda>c. c = 47) base_url
      in if \<not> endswith clean_url (py ''products.json?limit=1000'')
         then clean_url @ py ''/products.json?limit=1000''
         else clean_url)"

text \<open>The two \<open>except\<close> clauses, tried in order; any other exception leaves the function.\<close>

definition fetch_except :: "exc \<Rightarrow> ui list \<times> (exc + json)" where
  "fetch_except e =
     (if is_RequestException e
      then ([StError (py ''Error fetching data: '' @ str_exc e)], Inr (JArr []))
      else if is_ValueError e
      then ([StError (py ''Invalid JSON response. Is this a Shopify site?'')], Inr (JArr []))
      else ([], Inl e))"

definition fetch_shopify_products :: "world \<Rightarrow> pystr \<Rightarrow> ui list \<times> (exc + json)" where
  "fetch_shopify_products w base_url =
     (let params = [(py ''limit'', 250)]
      in case requests_get w (api_url base_url) params of
           Inl e \<Rightarrow> fetch_except e
         | Inr response \<Rightarrow>
             (case raise_for_status response of
                Some e \<Rightarrow> fetch_except e
              | None \<Rightarrow>
                  (case json_body response of
                     Inl e \<Rightarrow> fetch_except e
                   | Inr data \<Rightarrow>
                       (case py_get data (py ''products'') (JArr []) of
                          Inl e \<Rightarrow> fetch_except e
                        | Inr products \<Rightarrow> ([], Inr products)))))"

subsection \<open>\<open>extract_images\<close>\<close>

text \<open>An entry of the result: \<open>(src, title, product_url)\<close>.\<close>

type_synonym entry = "json \<times> json \<times> pystr"

text \<open>The body of the loop for one product: the entry it appends, if any.\<close>

definition extract_product :: "world \<Rightarrow> pystr \<Rightarrow> json \<Rightarrow> exc + entry option" where
  "extract_product w base_url product =
     (case py_get product (py ''title'') (JStr (py ''Unknown Product'')) of
        Inl e \<Rightarrow> Inl e
      | Inr title \<Rightarrow>
     (case py_get product (py ''handle'') (JStr []) of
        Inl e \<Rightarrow> Inl e
      | Inr handle \<Rightarrow>
     (let product_url = base_url @ py ''/products/'' @ py_str w handle
      in case py_get product (py ''images'') (JArr []) of
        Inl e \<Rightarrow> Inl e
      | Inr product_images \<Rightarrow>
          if truthy product_images
          then (case py_first product_images of
                  Inl e \<Rightarrow> Inl e
                | Inr first_img \<Rightarrow>
                    (case py_get first_img (py ''src'') JNull of
                       Inl e \<Rightarrow> Inl e
                     | Inr src \<Rightarrow>
                         if truthy src then Inr (Some (src, title, product_url))
                         else Inr None))
          else Inr None)))"

fun extract_loop :: "world \<Rightarrow> pystr \<Rightarrow> json list \<Rightarrow> entry list \<Rightarrow> exc + entry list" where
  "extract_loop w base_url [] images = Inr images"
| "extract_loop w base_url (product # rest) images =
     (case extract_product w base_url product of
        Inl e \<Rightarrow> Inl e
      | Inr None \<Rightarrow> extract_loop w base_url rest images
      | Inr (Some t) \<Rightarrow> extract_loop w base_url rest (images @ [t]))"

definition extract_images :: "world \<Rightarrow> json \<Rightarrow> pystr \<Rightarrow> exc + entry list" where
  "extract_images w products base_url =
     (case py_iter products of
        Inl e \<Rightarrow> Inl e
      | Inr ps \<Rightarrow> extract_loop w base_url ps [])"

subsection \<open>The grid\<close>

text \<open>\<open>range(i, stop, step)\<close> for a positive step (the script divides by the step first).\<close>

function range_step :: "nat \<Rightarrow> nat \<Rightarrow> nat \<Rightarrow> nat list" where
  "range_step i stop step =
     (if 0 < step \<and> i < stop then i # range_step (i + step) stop step else [])"
  by pat_completeness auto
termination
  by (relation "measure (\<lambda>(i, stop, step). stop - i)") auto

text \<open>The batches the loop takes: \<open>image_data[i:i+cols_count]\<close> for each \<open>i\<close> of the range.\<close>

definition batches :: "'a list \<Rightarrow> nat \<Rightarrow> 'a list list" where
  "batches image_data cols_count =
     map (\<lambda>i. slice image_data i (i + cols_count)) (range_step 0 (length image_data) cols_count)"

definition cell_title :: "world \<Rightarrow> json \<Rightarrow> pystr" where
  \<open>cell_title w title =
     py ''<div style="text-align:center; margin:0; padding:0; font-size:0.9rem; overflow:hidden; text-overflow:ellipsis; white-space:nowrap;" title="''
     @ py_str w title @ py ''">'' @ py_str w title @ py ''</div>''\<close>

definition cell_image :: "world \<Rightarrow> json \<Rightarrow> pystr \<Rightarrow> pystr" where
  \<open>cell_image w img_url product_url =
     py ''<a href="'' @ product_url @ py ''" target="_blank"><img src="'' @ py_str w img_url
     @ py ''" style="width:100%; border-radius:6px;"></a>''\<close>

text \<open>
  The inner loop over \<open>enumerate(batch)\<close>, from index \<open>idx\<close>; \<open>cols\<close> has \<open>cols_count\<close>
  elements, and \<open>cols[idx]\<close> raises beyond them.
\<close>

fun render_batch :: "world \<Rightarrow> nat \<Rightarrow> nat \<Rightarrow> entry list \<Rightarrow> ui list \<times> exc option" where
  "render_batch w cols_count idx [] = ([], None)"
| "render_batch w cols_count idx ((img_url, title, product_url) # rest) =
     (if idx < cols_count
      then (let (out, r) = render_batch w cols_count (Suc idx) rest
            in ([StCell idx (cell_title w title), StCell idx (cell_image w img_url product_url)] @ out, r))
      else ([], Some IndexError))"

text \<open>The outer loop, over the batches in order; an exception ends it.\<close>

fun render_rows :: "world \<Rightarrow> nat \<Rightarrow> entry list list \<Rightarrow> ui list \<times> exc option" where
  "render_rows w cols_count [] = ([], None)"
| "render_rows w cols_count (batch # rest) =
     (case render_batch w cols_count 0 batch of
        (out, Some e) \<Rightarrow> (StColumns cols_count # out, Some e)
      | (out, None) \<Rightarrow>
          (let (out', r) = render_rows w cols_count rest
           in (StColumns cols_count # out @ out', r)))"

subsection \<open>The script\<close>

definition no_products_warning :: pystr where
  "no_products_warning =
     py ''No products found. Ensure the URL is correct and the site is built on Shopify.''"

text \<open>The block under \<open>with st.spinner(...)\<close>, given the cleaned URL.\<close>

definition show_inventory :: "world \<Rightarrow> pystr \<Rightarrow> pystr \<Rightarrow> ui list \<times> exc option" where
  "show_inventory w url_input cleaned_url =
     (case fetch_shopify_products w cleaned_url of
        (out1, Inl e) \<Rightarrow> (out1, Some e)
      | (out1, Inr products) \<Rightarrow>
          if truthy products
          then (case extract_images w products cleaned_url of
                  Inl e \<Rightarrow> (out1, Some e)
                | Inr image_data \<Rightarrow>
                    (case py_len products of
                       Inl e \<Rightarrow> (out1, Some e)
                     | Inr n \<Rightarrow>
                         (let out2 = out1 @ [StSuccess (py ''Found '' @ str_nat n @ py '' products.''),
                                             StSlider 2 8 5];
                              cols_count = slider w
                          in if cols_count = 0 then (out2, Some ZeroDivisionError)
                             else (let (out3, r) = render_rows w cols_count (batches image_data cols_count)
                                   in (out2 @ out3, r)))))
          else if url_input \<noteq> [] then (out1 @ [StWarning no_products_warning], None)
          else (out1, None))"

text \<open>
  The CSS literal of the footer: it begins with a line break, and every line of it ends
  with one (the code point 10).
\<close>

definition footer_css :: pystr where
  "footer_css =
     [10] @ concat (map (\<lambda>line. py line @ [10])
       [''<style>'',
        ''    /* Simple CSS to make images look a bit cleaner if needed */'',
        ''    img {'',
        ''        border-radius: 8px;'',
        ''        transition: transform 0.2s;'',
        ''    }'',
        ''    img:hover {'',
        ''        transform: scale(1.02);'',
        ''        box-shadow: 0 4px 12px rgba(0,0,0,0.1);'',
        ''    }'',
        ''</style>''])"

text \<open>One run of the script for the text in the input box.\<close>

definition script :: "world \<Rightarrow> pystr \<Rightarrow> ui list \<times> exc option" where
  "script w url_input =
     (let out0 = [StSetPageConfig, StTitle ([128717, 65039] @ py '' Gridify''),
                  StMarkdown (py ''Enter a Shopify store URL to visualize its product inventory.''),
                  StTextInput]
      in if url_input \<noteq> []
         then (case clean_shopify_url w url_input of
                 Inl e \<Rightarrow> (out0, Some e)
               | Inr cleaned_url \<Rightarrow>
                   (case show_inventory w url_input cleaned_url of
                      (out1, Some e) \<Rightarrow>
                        (out0 @ [StSpinner (py ''Fetching inventory from '' @ cleaned_url @ py '' ...'')] @ out1, Some e)
                    | (out1, None) \<Rightarrow>
                        (out0 @ [StSpinner (py ''Fetching inventory from '' @ cleaned_url @ py '' ...'')] @ out1
                           @ [StMarkdown footer_css], None)))
         else (out0 @ [StMarkdown footer_css], None))"

section \<open>Vocabulary of the properties\<close>

text \<open>
  A world for closed examples: host validation and normalisation change nothing, and the
  network answers every request with the given outcome.
\<close>

definition world_of :: "exc + response \<Rightarrow> nat \<Rightarrow> world" where
  "world_of outcome cols =
     \<lparr>bracketed_host_ok = (\<lambda>_. True), nfkc = (\<lambda>s. s), repr_value = (\<lambda>_. py ''?''),
      requests_get = (\<lambda>_ _. outcome), slider = cols\<rparr>"

definition ok_response :: "json \<Rightarrow> response" where
  "ok_response body = \<lparr>status_code = 200, reason = py ''OK'', url = [], json_body = Inr body\<rparr>"

text \<open>
  A product record as the extractor needs it: a dict whose \<open>images\<close>, when present, is a
  list whose first element, when there is one, is a dict.
\<close>

definition product_record :: "json \<Rightarrow> bool" where
  "product_record p =
     (case p of
        JObj kvs \<Rightarrow>
          (case map_of kvs (py ''images'') of
             None \<Rightarrow> True
           | Some (JArr []) \<Rightarrow> True
           | Some (JArr (JObj img # imgs)) \<Rightarrow> True
           | Some other \<Rightarrow> False)
      | other \<Rightarrow> False)"

definition field :: "json \<Rightarrow> string \<Rightarrow> json option" where
  "field v k = (case v of JObj kvs \<Rightarrow> map_of kvs (py k) | other \<Rightarrow> None)"

text \<open>
  The entry of one product in the words of the specification: the first image's \<open>src\<close> when
  it is usable, the title (a default when absent), and the origin followed by \<open>/products/\<close>
  and the handle (empty when absent).
\<close>

definition product_entry :: "world \<Rightarrow> pystr \<Rightarrow> json \<Rightarrow> entry option" where
  "product_entry w origin p =
     (case field p ''images'' of
        Some (JArr (first_img # imgs)) \<Rightarrow>
          (case field first_img ''src'' of
             Some src \<Rightarrow>
               if truthy src
               then Some (src,
                          (case field p ''title'' of Some t \<Rightarrow> t | None \<Rightarrow> JStr (py ''Unknown Product'')),
                          origin @ py ''/products/'' @
                            (case field p ''handle'' of Some h \<Rightarrow> py_str w h | None \<Rightarrow> []))
               else None
           | None \<Rightarrow> None)
      | other \<Rightarrow> None)"

text \<open>What one round of the extractor's loop appends when it does not raise.\<close>

definition emitted :: "world \<Rightarrow> pystr \<Rightarrow> json \<Rightarrow> entry option" where
  "emitted w base_url product =
     (case extract_product w base_url product of Inl e \<Rightarrow> None | Inr r \<Rightarrow> r)"

text \<open>
  The authority of a URL, for the text \<open>r\<close> that follows \<open>scheme://\<close>: tabs and line breaks
  are dropped, and it ends before the first \<open>/\<close>, \<open>?\<close> or \<open>#\<close>.
\<close>

definition authority :: "pystr \<Rightarrow> pystr" where
  "authority r = takeWhile (\<lambda>c. c \<noteq> 47 \<and> c \<noteq> 63 \<and> c \<noteq> 35)
                           (filter (\<lambda>c. c \<noteq> 9 \<and> c \<noteq> 13 \<and> c \<noteq> 10) r)"

text \<open>
  The scheme the normalizer settles on and the text after \<open>scheme://\<close>: those of the
  trimmed input when it starts with \<open>http://\<close> or \<open>https://\<close>, else \<open>https\<close> and the whole
  trimmed input.
\<close>

definition url_parts :: "pystr \<Rightarrow> pystr \<times> pystr" where
  "url_parts url_in =
     (let u = strip url_in
      in if startswith u (py ''http://'') then (py ''http'', drop 7 u)
         else if startswith u (py ''https://'') then (py ''https'', drop 8 u)
         else (py ''https'', u))"

text \<open>The three checks on the netloc under which \<open>urlsplit\<close> raises \<open>ValueError\<close>.\<close>

definition bracketed_host :: "pystr \<Rightarrow> pystr" where
  "bracketed_host nl = fst (partition_str (snd (snd (partition_str nl 91))) 93)"

definition netloc_rejected :: "world \<Rightarrow> pystr \<Rightarrow> bool" where
  "netloc_rejected w nl \<longleftrightarrow>
     (contains nl 91 \<and> \<not> contains nl 93) \<or> (contains nl 93 \<and> \<not> contains nl 91) \<or>
     (contains nl 91 \<and> contains nl 93 \<and> \<not> bracketed_host_ok w (bracketed_host nl)) \<or>
     checknetloc_raises w nl"

text \<open>One round of the search for the end of the netloc in \<open>_splitnetloc\<close>.\<close>

definition delim_step :: "pystr \<Rightarrow> nat \<Rightarrow> nat \<Rightarrow> nat" where
  "delim_step u c delim = (let wdelim = find_from u c 2
                           in if wdelim \<ge> 0 then min delim (nat wdelim) else delim)"

text \<open>The markup of the grid cells, the warnings and the successes among the calls made.\<close>

fun cell_markup :: "ui list \<Rightarrow> pystr list" where
  "cell_markup [] = []"
| "cell_markup (StCell idx m # rest) = m # cell_markup rest"
| "cell_markup (other # rest) = cell_markup rest"

fun warnings :: "ui list \<Rightarrow> pystr list" where
  "warnings [] = []"
| "warnings (StWarning m # rest) = m # warnings rest"
| "warnings (other # rest) = warnings rest"

text \<open>The two pieces of markup of one entry, as the inner loop emits them.\<close>

definition entry_markup :: "world \<Rightarrow> entry \<Rightarrow> pystr list" where
  "entry_markup w e =
     (case e of (img_url, title, product_url) \<Rightarrow>
        [cell_title w title, cell_image w img_url product_url])"

fun successes :: "ui list \<Rightarrow> pystr list" where
  "successes [] = []"
| "successes (StSuccess m # rest) = m # successes rest"
| "successes (other # rest) = successes rest"

section \<open>The grid loop partitions the entries\<close>

declare range_step.simps [simp del]

lemma slice_drop_take: "slice xs i (i + c) = take c (drop i xs)"
  by (simp add: slice_def take_drop add.commute)

lemma concat_batches_from:
  "0 < c \<Longrightarrow> n = length xs \<Longrightarrow>
   concat (map (\<lambda>j. slice xs j (j + c)) (range_step i n c)) = drop i xs"
proof (induction i n c rule: range_step.induct)
  case (1 i stop step)
  show ?case
  proof (cases "i < stop")
    case True
    have "concat (map (\<lambda>j. slice xs j (j + step)) (range_step i stop step))
          = slice xs i (i + step) @ drop (i + step) xs"
      using 1 True by (subst range_step.simps) simp
    also have "\<dots> = take step (drop i xs) @ drop step (drop i xs)"
      by (simp add: slice_drop_take add.commute)
    also have "\<dots> = drop i xs"
      by (rule append_take_drop_id)
    finally show ?thesis .
  next
    case False
    then show ?thesis using 1(3) by (subst range_step.simps) simp
  qed
qed

lemma Suc_div_step: "0 < (c::nat) \<Longrightarrow> Suc (a div c) = (a + c) div c"
  using div_add_self2 [of c a] by simp

lemma length_range_step:
  "0 < c \<Longrightarrow> length (range_step i n c) = (n - i + c - 1) div c"
proof (induction i n c rule: range_step.induct)
  case (1 i stop step)
  show ?case
  proof (cases "i < stop")
    case True
    have len: "length (range_step i stop step) = Suc ((stop - (i + step) + step - 1) div step)"
      using 1 True by (subst range_step.simps) simp
    show ?thesis
    proof (cases "i + step \<le> stop")
      case True
      have "Suc ((stop - (i + step) + step - 1) div step)
            = (stop - (i + step) + step - 1 + step) div step"
        using 1(2) by (rule Suc_div_step)
      also have "stop - (i + step) + step - 1 + step = stop - i + step - 1"
        using True 1(2) by simp
      finally show ?thesis using len by simp
    next
      case False
      have "(stop - (i + step) + step - 1) div step = 0"
        using False 1(2) by simp
      moreover have "(stop - i + step - 1) div step = 1"
      proof -
        have "stop - i + step - 1 = (stop - i - 1) + step" using \<open>i < stop\<close> by simp
        moreover have "(stop - i - 1) div step = 0" using False \<open>i < stop\<close> by simp
        ultimately show ?thesis using Suc_div_step [OF 1(2), of "stop - i - 1"] by simp
      qed
      ultimately show ?thesis using len by simp
    qed
  next
    case False
    then have "range_step i stop step = []" by (subst range_step.simps) simp
    moreover have "(stop - i + step - 1) div step = 0" using False 1(2) by simp
    ultimately show ?thesis by simp
  qed
qed

lemma range_step_members:
  "0 < c \<Longrightarrow> j \<in> set (range_step i n c) \<Longrightarrow> j < n"
proof (induction i n c rule: range_step.induct)
  case (1 i stop step)
  from 1(3) have "i < stop \<and> (j = i \<or> j \<in> set (range_step (i + step) stop step))"
    by (subst (asm) range_step.simps) (auto split: if_splits)
  then show ?case using 1 by auto
qed

text \<open>Every batch but the last is full.\<close>

lemma batches_from_butlast_full:
  "0 < c \<Longrightarrow> n = length xs \<Longrightarrow>
   b \<in> set (butlast (map (\<lambda>j. slice xs j (j + c)) (range_step i n c))) \<Longrightarrow> length b = c"
proof (induction i n c rule: range_step.induct)
  case (1 i stop step)
  show ?case
  proof (cases "i < stop")
    case True
    note unf = range_step.simps [of i stop step]
    show ?thesis
    proof (cases "range_step (i + step) stop step = []")
      case True
      with 1(4) unf \<open>i < stop\<close> 1(2) show ?thesis by simp
    next
      case False
      then have "i + step < stop"
        by (subst (asm) range_step.simps) (auto split: if_splits)
      then have full: "length (slice xs i (i + step)) = step"
        using 1(3) by (simp add: slice_drop_take)
      from 1(4) unf True 1(2) False
      have "b = slice xs i (i + step) \<or>
            b \<in> set (butlast (map (\<lambda>j. slice xs j (j + step)) (range_step (i + step) stop step)))"
        by auto
      then show ?thesis using full 1(1) 1(2) 1(3) True by auto
    qed
  next
    case False
    with 1(4) show ?thesis by (subst (asm) range_step.simps) simp
  qed
qed

lemma batches_nonempty_bounded:
  assumes "0 < c" and "b \<in> set (batches xs c)"
  shows "0 < length b \<and> length b \<le> c"
proof -
  from assms(2) obtain j where j: "j \<in> set (range_step 0 (length xs) c)" and b: "b = slice xs j (j + c)"
    unfolding batches_def by auto
  from range_step_members [OF assms(1) j] have "j < length xs" .
  then show ?thesis using assms(1) by (simp add: b slice_drop_take)
qed

lemma batch_lengths:
  "map length (batches xs c) = map (\<lambda>i. min c (length xs - i)) (range_step 0 (length xs) c)"
  by (simp add: batches_def slice_drop_take min.commute)

lemma range_step_13_5: "range_step 0 13 5 = [0, 5, 10]"
  by (simp add: range_step.simps)

text \<open>
  C4. For a column count from 2 to 8 the batches of the grid loop, concatenated in order,
  are the entries; every batch but the last has exactly the column count of entries, and
  each batch, the last one too, has at least one entry and at most the column count; there
  are as many batches as the entry count divided by the column count, rounded up. 13 entries
  in 5 columns give batches of sizes 5, 5 and 3, and no entries give no batch.
\<close>

theorem grid_batches_partition:
  assumes "2 \<le> c" and "c \<le> 8"
  shows "concat (batches xs c) = xs
       \<and> (\<forall>b \<in> set (butlast (batches xs c)). length b = c)
       \<and> (\<forall>b \<in> set (batches xs c). 0 < length b \<and> length b \<le> c)
       \<and> length (batches xs c) = (length xs + c - 1) div c
       \<and> (length xs = 13 \<and> c = 5 \<longrightarrow> map length (batches xs c) = [5, 5, 3])
       \<and> (xs = [] \<longrightarrow> batches xs c = [])"
proof -
  from assms have c: "0 < c" by simp
  have "concat (batches xs c) = xs"
    using concat_batches_from [OF c refl, of xs 0] by (simp add: batches_def)
  moreover have "\<forall>b \<in> set (butlast (batches xs c)). length b = c"
    using batches_from_butlast_full [OF c refl, of _ xs 0] by (simp add: batches_def)
  moreover have "\<forall>b \<in> set (batches xs c). 0 < length b \<and> length b \<le> c"
    using batches_nonempty_bounded [OF c] by blast
  moreover have "length (batches xs c) = (length xs + c - 1) div c"
    using length_range_step [OF c, of 0 "length xs"] by (simp add: batches_def)
  moreover have "length xs = 13 \<and> c = 5 \<longrightarrow> map length (batches xs c) = [5, 5, 3]"
    by (simp add: batch_lengths range_step_13_5)
  moreover have "xs = [] \<longrightarrow> batches xs c = []"
    by (simp add: batches_def range_step.simps)
  ultimately show ?thesis by blast
qed

theorem grid_batches_partition_witness:
  "(2::nat) \<le> 3 \<and> (3::nat) \<le> 8
   \<and> batches [10, 20, 30, 40, 50, 60, 70 :: nat] 3 = [[10, 20, 30], [40, 50, 60], [70]]
   \<and> concat (batches [10, 20, 30, 40, 50, 60, 70 :: nat] 3) = [10, 20, 30, 40, 50, 60, 70]
   \<and> length (batches [10, 20, 30, 40, 50, 60, 70 :: nat] 3) = 3"
  using grid_batches_partition [of 3 "[10, 20, 30, 40, 50, 60, 70 :: nat]"]
  by (simp add: batches_def range_step.simps slice_def)

section \<open>The image extractor\<close>

lemma extract_product_record:
  "product_record p \<Longrightarrow> extract_product w origin p = Inr (product_entry w origin p)"
  unfolding product_record_def extract_product_def product_entry_def field_def
  by (auto split: json.splits option.splits list.splits)

lemma extract_loop_records:
  "list_all product_record ps \<Longrightarrow>
   extract_loop w origin ps acc = Inr (acc @ List.map_filter (product_entry w origin) ps)"
proof (induction ps arbitrary: acc)
  case Nil
  then show ?case by simp
next
  case (Cons p ps)
  then show ?case
    by (cases "product_entry w origin p") (simp_all add: extract_product_record)
qed

lemma length_map_filter_le: "length (List.map_filter f xs) \<le> length xs"
  by (induction xs) (auto split: option.splits)

lemma extract_loop_emitted:
  "extract_loop w origin ps acc = Inr es \<Longrightarrow>
   es = acc @ List.map_filter (emitted w origin) ps"
proof (induction ps arbitrary: acc)
  case Nil
  then show ?case by simp
next
  case (Cons p ps)
  show ?case
  proof (cases "extract_product w origin p")
    case (Inl e)
    with Cons.prems show ?thesis by simp
  next
    case (Inr r)
    show ?thesis
    proof (cases r)
      case None
      with Inr Cons.prems have "extract_loop w origin ps acc = Inr es" by simp
      from Cons.IH [OF this] show ?thesis using Inr None by (simp add: emitted_def)
    next
      case (Some t)
      with Inr Cons.prems have "extract_loop w origin ps (acc @ [t]) = Inr es" by simp
      from Cons.IH [OF this] show ?thesis using Inr Some by (simp add: emitted_def)
    qed
  qed
qed

lemma extract_product_default_title:
  "map_of kvs (py ''title'') = None \<Longrightarrow>
   extract_product w origin (JObj kvs) = Inr (Some (src, title, u)) \<Longrightarrow>
   title = JStr (py ''Unknown Product'')"
  unfolding extract_product_def
  by (auto split: sum.splits option.splits if_splits)


lemma extract_product_dict:
  "extract_product w origin p = Inr r \<Longrightarrow> \<exists>kvs. p = JObj kvs"
  unfolding extract_product_def by (cases p) simp_all

text \<open>
  C3. On a list of product records the extractor returns, in the order of the products,
  the entry of each product that has one: at most one entry per product, made of the src of
  the first image only, the title, and origin + "/products/" + handle. A product with no
  images, or whose first image has no src or a false one, has no entry. The result is no
  longer than the list of products.
\<close>

theorem extract_images_first_image:
  assumes "list_all product_record ps"
  shows "extract_images w (JArr ps) origin = Inr (List.map_filter (product_entry w origin) ps)
       \<and> length (List.map_filter (product_entry w origin) ps) \<le> length ps"
  using extract_loop_records [OF assms, of w origin "[]"]
  by (simp add: extract_images_def length_map_filter_le)

theorem extract_images_first_image_witness:
  "list_all product_record
     [JObj [(py ''title'', JStr (py ''Mug'')), (py ''handle'', JStr (py ''mug'')),
            (py ''images'', JArr [JObj [(py ''src'', JStr (py ''a.png''))],
                                  JObj [(py ''src'', JStr (py ''b.png''))]])],
      JObj [(py ''title'', JStr (py ''Cap'')), (py ''handle'', JStr (py ''cap'')),
            (py ''images'', JArr [])],
      JObj [(py ''title'', JStr (py ''Pen'')), (py ''handle'', JStr (py ''pen'')),
            (py ''images'', JArr [JObj [(py ''alt'', JStr (py ''x''))]])],
      JObj [(py ''title'', JStr (py ''Bag'')),
            (py ''images'', JArr [JObj [(py ''src'', JStr (py ''c.png''))]])]]
   \<and> extract_images (world_of (Inl (Timeout [])) 5)
       (JArr
         [JObj [(py ''title'', JStr (py ''Mug'')), (py ''handle'', JStr (py ''mug'')),
                (py ''images'', JArr [JObj [(py ''src'', JStr (py ''a.png''))],
                                      JObj [(py ''src'', JStr (py ''b.png''))]])],
          JObj [(py ''title'', JStr (py ''Cap'')), (py ''handle'', JStr (py ''cap'')),
                (py ''images'', JArr [])],
          JObj [(py ''title'', JStr (py ''Pen'')), (py ''handle'', JStr (py ''pen'')),
                (py ''images'', JArr [JObj [(py ''alt'', JStr (py ''x''))]])],
          JObj [(py ''title'', JStr (py ''Bag'')),
                (py ''images'', JArr [JObj [(py ''src'', JStr (py ''c.png''))]])]])
       (py ''https://s.io'')
     = Inr [(JStr (py ''a.png''), JStr (py ''Mug''), py ''https://s.io/products/mug''),
            (JStr (py ''c.png''), JStr (py ''Bag''), py ''https://s.io/products/'')]"
  using extract_images_first_image
    [of "[JObj [(py ''title'', JStr (py ''Mug'')), (py ''handle'', JStr (py ''mug'')),
            (py ''images'', JArr [JObj [(py ''src'', JStr (py ''a.png''))],
                                  JObj [(py ''src'', JStr (py ''b.png''))]])],
      JObj [(py ''title'', JStr (py ''Cap'')), (py ''handle'', JStr (py ''cap'')),
            (py ''images'', JArr [])],
      JObj [(py ''title'', JStr (py ''Pen'')), (py ''handle'', JStr (py ''pen'')),
            (py ''images'', JArr [JObj [(py ''alt'', JStr (py ''x''))]])],
      JObj [(py ''title'', JStr (py ''Bag'')),
            (py ''images'', JArr [JObj [(py ''src'', JStr (py ''c.png''))]])]]"
        "world_of (Inl (Timeout [])) 5" "py ''https://s.io''"]
  by (simp add: product_record_def product_entry_def field_def py_def)

text \<open>
  C10. When the extractor returns, its result is made, in order, of what the rounds of its
  loop appended; and whatever a round appends for a product without a \<open>title\<close> key carries
  the title "Unknown Product".
\<close>

theorem absent_title_default:
  assumes "extract_images w (JArr ps) origin = Inr es"
  shows "es = List.map_filter (emitted w origin) ps
       \<and> (\<forall>p \<in> set ps. \<forall>src title u.
             field p ''title'' = None \<and> emitted w origin p = Some (src, title, u)
             \<longrightarrow> title = JStr (py ''Unknown Product''))"
proof -
  from assms have "extract_loop w origin ps [] = Inr es"
    by (simp add: extract_images_def)
  from extract_loop_emitted [OF this] have "es = List.map_filter (emitted w origin) ps"
    by simp
  moreover have "title = JStr (py ''Unknown Product'')"
    if "field p ''title'' = None" and em: "emitted w origin p = Some (src, title, u)"
    for p src title u
  proof -
    from em have ex: "extract_product w origin p = Inr (Some (src, title, u))"
      by (simp add: emitted_def split: sum.splits)
    from extract_product_dict [OF ex] obtain kvs where kvs: "p = JObj kvs" by blast
    with that(1) have "map_of kvs (py ''title'') = None"
      by (simp add: field_def)
    from extract_product_default_title [OF this] ex kvs show ?thesis by simp
  qed
  ultimately show ?thesis by blast
qed

theorem absent_title_default_witness:
  "field (JObj [(py ''handle'', JStr (py ''cap'')),
                (py ''images'', JArr [JObj [(py ''src'', JStr (py ''b.png''))]])]) ''title'' = None
   \<and> extract_images (world_of (Inl (Timeout [])) 5)
        (JArr [JObj [(py ''title'', JStr (py ''Mug'')), (py ''handle'', JStr (py ''mug'')),
                     (py ''images'', JArr [JObj [(py ''src'', JStr (py ''a.png''))]])],
               JObj [(py ''handle'', JStr (py ''cap'')),
                     (py ''images'', JArr [JObj [(py ''src'', JStr (py ''b.png''))]])]])
        (py ''https://s.io'')
      = Inr [(JStr (py ''a.png''), JStr (py ''Mug''), py ''https://s.io/products/mug''),
             (JStr (py ''b.png''), JStr (py ''Unknown Product''), py ''https://s.io/products/cap'')]"
proof -
  let ?mug = "JObj [(py ''title'', JStr (py ''Mug'')), (py ''handle'', JStr (py ''mug'')),
                    (py ''images'', JArr [JObj [(py ''src'', JStr (py ''a.png''))]])]"
  let ?cap = "JObj [(py ''handle'', JStr (py ''cap'')),
                    (py ''images'', JArr [JObj [(py ''src'', JStr (py ''b.png''))]])]"
  let ?w = "world_of (Inl (Timeout [])) 5"
  have a: "field ?cap ''title'' = None"
    by (simp add: field_def py_def)
  obtain t where c: "extract_images ?w (JArr [?mug, ?cap]) (py ''https://s.io'')
      = Inr [(JStr (py ''a.png''), JStr (py ''Mug''), py ''https://s.io/products/mug''),
             (JStr (py ''b.png''), t, py ''https://s.io/products/cap'')]"
    by (simp add: extract_images_def extract_product_def py_def)
  then have e: "emitted ?w (py ''https://s.io'') ?cap
      = Some (JStr (py ''b.png''), t, py ''https://s.io/products/cap'')"
    by (simp add: extract_images_def emitted_def split: sum.splits option.splits)
  from absent_title_default [OF c] a e
  have "t = JStr (py ''Unknown Product'')" by simp
  with a c show ?thesis by simp
qed

section \<open>The catalog fetcher\<close>

lemma fetch_except_request:
  "is_RequestException e \<Longrightarrow>
   fetch_except e = ([StError (py ''Error fetching data: '' @ str_exc e)], Inr (JArr []))"
  by (simp add: fetch_except_def)

lemma fetch_except_value:
  "is_ValueError e \<Longrightarrow> \<exists>m. fetch_except e = ([StError m], Inr (JArr []))"
  by (simp add: fetch_except_def)

lemma raise_for_status_error:
  "400 \<le> status_code r \<Longrightarrow> status_code r < 600 \<Longrightarrow> \<exists>m. raise_for_status r = Some (HTTPError m)"
  by (simp add: raise_for_status_def)

lemma raise_for_status_cases:
  "raise_for_status r = None \<or> (\<exists>m. raise_for_status r = Some (HTTPError m))"
  by (simp add: raise_for_status_def)

lemma fetch_object_body:
  assumes "requests_get w (api_url base_url) [(py ''limit'', 250)] = Inr r"
      and "raise_for_status r = None"
      and "json_body r = Inr (JObj kvs)"
  shows "fetch_shopify_products w base_url =
           ([], Inr (case map_of kvs (py ''products'') of Some v \<Rightarrow> v | None \<Rightarrow> JArr []))"
  using assms by (simp add: fetch_shopify_products_def split: option.splits)

text \<open>
  C1, as the code has it. When \<open>requests.get\<close> raises a \<open>RequestException\<close> (a network
  error, a timeout), when the status is from 400 to 599, or when decoding the body raises a
  \<open>ValueError\<close>, the fetcher returns an empty list and shows one error message; when the body
  decodes to a JSON object the fetcher returns without raising.
\<close>

theorem fetch_failures_recovered:
  assumes "requests_get w (api_url base_url) [(py ''limit'', 250)] = outcome"
  shows "(\<forall>e. outcome = Inl e \<and> is_RequestException e \<longrightarrow>
            fetch_shopify_products w base_url
              = ([StError (py ''Error fetching data: '' @ str_exc e)], Inr (JArr [])))
       \<and> (\<forall>r. outcome = Inr r \<and> 400 \<le> status_code r \<and> status_code r < 600 \<longrightarrow>
            (\<exists>m. fetch_shopify_products w base_url
              = ([StError (py ''Error fetching data: '' @ m)], Inr (JArr []))))
       \<and> (\<forall>r e. outcome = Inr r \<and> json_body r = Inl e \<and> is_ValueError e \<longrightarrow>
            (\<exists>m. fetch_shopify_products w base_url = ([StError m], Inr (JArr []))))
       \<and> (\<forall>r kvs. outcome = Inr r \<and> json_body r = Inr (JObj kvs) \<longrightarrow>
            (\<exists>out v. fetch_shopify_products w base_url = (out, Inr v)))"
proof (intro conjI allI impI)
  fix e assume "outcome = Inl e \<and> is_RequestException e"
  with assms show "fetch_shopify_products w base_url
      = ([StError (py ''Error fetching data: '' @ str_exc e)], Inr (JArr []))"
    by (simp add: fetch_shopify_products_def fetch_except_request)
next
  fix r assume a: "outcome = Inr r \<and> 400 \<le> status_code r \<and> status_code r < 600"
  then obtain m where "raise_for_status r = Some (HTTPError m)"
    using raise_for_status_error by blast
  with assms a show "\<exists>m. fetch_shopify_products w base_url
      = ([StError (py ''Error fetching data: '' @ m)], Inr (JArr []))"
    by (simp add: fetch_shopify_products_def fetch_except_def)
next
  fix r e assume a: "outcome = Inr r \<and> json_body r = Inl e \<and> is_ValueError e"
  from raise_for_status_cases [of r]
  show "\<exists>m. fetch_shopify_products w base_url = ([StError m], Inr (JArr []))"
  proof
    assume "raise_for_status r = None"
    with assms a fetch_except_value [of e] show ?thesis
      by (simp add: fetch_shopify_products_def)
  next
    assume "\<exists>m. raise_for_status r = Some (HTTPError m)"
    then obtain m where "raise_for_status r = Some (HTTPError m)" ..
    with assms a show ?thesis
      by (simp add: fetch_shopify_products_def fetch_except_def)
  qed
next
  fix r kvs assume a: "outcome = Inr r \<and> json_body r = Inr (JObj kvs)"
  from raise_for_status_cases [of r]
  show "\<exists>out v. fetch_shopify_products w base_url = (out, Inr v)"
  proof
    assume "raise_for_status r = None"
    with assms a fetch_object_body [of w base_url r kvs] show ?thesis by simp
  next
    assume "\<exists>m. raise_for_status r = Some (HTTPError m)"
    then obtain m where "raise_for_status r = Some (HTTPError m)" ..
    with assms a show ?thesis
      by (simp add: fetch_shopify_products_def fetch_except_def)
  qed
qed

theorem fetch_failures_recovered_witness:
  "is_RequestException (Timeout (py ''timed out'')) \<and>
   fetch_shopify_products
     (world_of (Inl (Timeout (py ''timed out''))) 5) (py ''https://example.com'')
     = ([StError (py ''Error fetching data: timed out'')], Inr (JArr []))"
proof -
  let ?w = "world_of (Inl (Timeout (py ''timed out''))) 5"
  have "requests_get ?w (api_url (py ''https://example.com'')) [(py ''limit'', 250)]
        = Inl (Timeout (py ''timed out''))"
    by (simp add: world_of_def)
  from fetch_failures_recovered [OF this]
  have "fetch_shopify_products ?w (py ''https://example.com'')
        = ([StError (py ''Error fetching data: '' @ str_exc (Timeout (py ''timed out'')))], Inr (JArr []))"
    by simp
  then show ?thesis by (simp add: py_def)
qed

text \<open>
  A status outside 200 to 299 is not always a failure for the fetcher: \<open>raise_for_status\<close>
  lets the status 300 through, and the products of the body are returned with no message.
\<close>

theorem fetch_status_300_counterexample:
  "\<not> (200 \<le> status_code \<lparr>status_code = 300, reason = py ''Multiple Choices'', url = [],
          json_body = Inr (JObj [(py ''products'', JArr [JObj [(py ''handle'', JStr (py ''mug''))]])])\<rparr>
      \<and> status_code \<lparr>status_code = 300, reason = py ''Multiple Choices'', url = [],
          json_body = Inr (JObj [(py ''products'', JArr [JObj [(py ''handle'', JStr (py ''mug''))]])])\<rparr> < 300)
   \<and> fetch_shopify_products
       (world_of (Inr \<lparr>status_code = 300, reason = py ''Multiple Choices'', url = [],
          json_body = Inr (JObj [(py ''products'', JArr [JObj [(py ''handle'', JStr (py ''mug''))]])])\<rparr>) 5)
       (py ''https://example.com'')
     = ([], Inr (JArr [JObj [(py ''handle'', JStr (py ''mug''))]]))"
  by (simp add: fetch_shopify_products_def world_of_def raise_for_status_def py_def)

text \<open>
  C6. A body that decodes to a JSON value other than an object has no \<open>products\<close> field; on
  the body \<open>[]\<close> with status 200 the call \<open>data.get\<close> raises \<open>AttributeError\<close>, which neither
  \<open>except\<close> clause catches, and the fetcher does not return.
\<close>

theorem fetch_json_array_body_raises:
  "fetch_shopify_products (world_of (Inr (ok_response (JArr []))) 5) (py ''https://example.com'')
     = ([], Inl AttributeError)"
  by (simp add: fetch_shopify_products_def world_of_def ok_response_def raise_for_status_def
      fetch_except_def)

section \<open>The URL normalizer\<close>

subsection \<open>The netloc that \<open>urlsplit\<close> finds\<close>

lemma length_takeWhile_conj:
  "length (takeWhile (\<lambda>x. P x \<and> Q x) r) = min (length (takeWhile P r)) (length (takeWhile Q r))"
  by (induction r) auto

lemma length_takeWhile_absent:
  "c \<notin> set r \<Longrightarrow> length (takeWhile (\<lambda>x. x \<noteq> c) r) = length r"
  by (induction r) auto

lemma find_from_after_slashes:
  "find_from (a # b # r) c 2 =
     (if c \<in> set r then int (2 + length (takeWhile (\<lambda>x. x \<noteq> c) r)) else - 1)"
  by (simp add: find_from_def)

lemma py_delims: "py ''/?#'' = [47, 63, 35]"
  by (simp add: py_def)

lemma delim_step_after_slashes:
  assumes "d \<le> 2 + length r"
  shows "delim_step (a # b # r) c d = min d (2 + length (takeWhile (\<lambda>x. x \<noteq> c) r))"
proof (cases "c \<in> set r")
  case True
  then show ?thesis by (simp add: delim_step_def find_from_after_slashes)
next
  case False
  then show ?thesis using assms
    by (simp add: delim_step_def find_from_after_slashes length_takeWhile_absent)
qed

lemma splitnetloc_delim:
  "fold (delim_step (a # b # r)) [47, 63, 35] (length (a # b # r))
   = 2 + length (takeWhile (\<lambda>c. c \<noteq> 47 \<and> c \<noteq> 63 \<and> c \<noteq> 35) r)"
proof -
  let ?f = "\<lambda>c. length (takeWhile (\<lambda>x. x \<noteq> c) r)"
  let ?u = "a # b # r"
  have le: "?f c \<le> length r" for c by (rule length_takeWhile_le)
  define d1 where "d1 = delim_step ?u 47 (length ?u)"
  define d2 where "d2 = delim_step ?u 63 d1"
  define d3 where "d3 = delim_step ?u 35 d2"
  have e1: "d1 = 2 + ?f 47"
    unfolding d1_def using le [of 47] by (subst delim_step_after_slashes) simp_all
  have e2: "d2 = 2 + min (?f 47) (?f 63)"
    unfolding d2_def e1 using le [of 47] by (subst delim_step_after_slashes) simp_all
  have e3: "d3 = 2 + min (min (?f 47) (?f 63)) (?f 35)"
    unfolding d3_def e2 using le [of 47] by (subst delim_step_after_slashes) simp_all
  have "fold (delim_step ?u) [47, 63, 35] (length ?u) = d3"
    by (simp add: d3_def d2_def d1_def)
  moreover have "min (min (?f 47) (?f 63)) (?f 35)
             = length (takeWhile (\<lambda>c. c \<noteq> 47 \<and> c \<noteq> 63 \<and> c \<noteq> 35) r)"
    unfolding length_takeWhile_conj by (simp add: min.assoc)
  ultimately show ?thesis using e3 by simp
qed

lemma splitnetloc_after_slashes:
  "splitnetloc (a # b # r) 2 =
     (takeWhile (\<lambda>c. c \<noteq> 47 \<and> c \<noteq> 63 \<and> c \<noteq> 35) r,
      dropWhile (\<lambda>c. c \<noteq> 47 \<and> c \<noteq> 63 \<and> c \<noteq> 35) r)"
proof -
  have "splitnetloc (a # b # r) 2 =
          (let delim = fold (delim_step (a # b # r)) [47, 63, 35] (length (a # b # r))
           in (slice (a # b # r) 2 delim, drop delim (a # b # r)))"
    unfolding splitnetloc_def py_delims delim_step_def ..
  then show ?thesis
    unfolding splitnetloc_delim
    by (simp add: slice_def drop_take takeWhile_eq_take [symmetric] dropWhile_eq_drop [symmetric])
qed


lemma py_slashes: "py ''//'' = [47, 47]"
  by (simp add: py_def)

lemma remove_chars_filter:
  "remove_char 10 (remove_char 13 (remove_char 9 x)) = filter (\<lambda>c. c \<noteq> 9 \<and> c \<noteq> 13 \<and> c \<noteq> 10) x"
  by (simp add: remove_char_def)

lemma scheme_chars_http:
  "list_all (\<lambda>c. contains scheme_chars c) (py ''http'')"
  "list_all (\<lambda>c. contains scheme_chars c) (py ''https'')"
  by (simp_all add: py_def scheme_chars_def contains_def)

text \<open>The steps of \<open>urlsplit\<close> before the netloc, on a URL that starts with a scheme.\<close>

lemma http_prefix_steps:
  "lstrip whatwg_c0_control_or_space (py ''http://'' @ r) = py ''http://'' @ r"
  "filter (\<lambda>c. c \<noteq> 9 \<and> c \<noteq> 13 \<and> c \<noteq> 10) (py ''http://'') = py ''http://''"
  "find (py ''http://'' @ r) 58 = 4"
  "hd (py ''http://'' @ r) = 104"
  "take 4 (py ''http://'' @ r) = py ''http''"
  "drop 5 (py ''http://'' @ r) = 47 # 47 # r"
  "lower_ascii (py ''http'') = py ''http''"
  "length (py ''http://'') = 7"
  "take 4 (py ''http://'') = py ''http''"
  "drop 5 (py ''http://'') = [47, 47]"
  by (simp_all add: py_def lstrip_def whatwg_c0_control_or_space_def find_def find_from_def
      lower_ascii_def)

lemma https_prefix_steps:
  "lstrip whatwg_c0_control_or_space (py ''https://'' @ r) = py ''https://'' @ r"
  "filter (\<lambda>c. c \<noteq> 9 \<and> c \<noteq> 13 \<and> c \<noteq> 10) (py ''https://'') = py ''https://''"
  "find (py ''https://'' @ r) 58 = 5"
  "hd (py ''https://'' @ r) = 104"
  "take 5 (py ''https://'' @ r) = py ''https''"
  "drop 6 (py ''https://'' @ r) = 47 # 47 # r"
  "lower_ascii (py ''https'') = py ''https''"
  "length (py ''https://'') = 8"
  "take 5 (py ''https://'') = py ''https''"
  "drop 6 (py ''https://'') = [47, 47]"
  by (simp_all add: py_def lstrip_def whatwg_c0_control_or_space_def find_def find_from_def
      lower_ascii_def)



lemma urlsplit_tail_cases:
  "urlsplit_tail w sch nl u =
     (if checknetloc_raises w nl
      then Inl (ValueError (py ''netloc '' @ [39] @ nl @ [39] @
                            py '' contains invalid characters under NFKC normalization''))
      else Inr \<lparr>scheme = sch, netloc = nl,
                path = path (projr (urlsplit_tail w sch nl u)),
                query = query (projr (urlsplit_tail w sch nl u)),
                fragment = fragment (projr (urlsplit_tail w sch nl u))\<rparr>)"
  by (simp add: urlsplit_tail_def Let_def split: prod.splits)

lemma urlsplit_netloc_ok:
  assumes "\<not> netloc_rejected w (takeWhile (\<lambda>c. c \<noteq> 47 \<and> c \<noteq> 63 \<and> c \<noteq> 35) r)"
  shows "\<exists>p q f. urlsplit_netloc w sch (47 # 47 # r)
     = Inr \<lparr>scheme = sch, netloc = takeWhile (\<lambda>c. c \<noteq> 47 \<and> c \<noteq> 63 \<and> c \<noteq> 35) r,
            path = p, query = q, fragment = f\<rparr>"
proof -
  let ?nl = "takeWhile (\<lambda>c. c \<noteq> 47 \<and> c \<noteq> 63 \<and> c \<noteq> 35) r"
  let ?rest = "dropWhile (\<lambda>c. c \<noteq> 47 \<and> c \<noteq> 63 \<and> c \<noteq> 35) r"
  from assms have "urlsplit_netloc w sch (47 # 47 # r) = urlsplit_tail w sch ?nl ?rest"
    by (auto simp add: urlsplit_netloc_def py_slashes splitnetloc_after_slashes netloc_rejected_def
        bracketed_host_def)
  moreover from assms have "\<not> checknetloc_raises w ?nl"
    by (simp add: netloc_rejected_def)
  ultimately show ?thesis
    using urlsplit_tail_cases [of w sch ?nl ?rest] by metis
qed

lemma urlsplit_netloc_rejected:
  assumes "netloc_rejected w (takeWhile (\<lambda>c. c \<noteq> 47 \<and> c \<noteq> 63 \<and> c \<noteq> 35) r)"
  shows "\<exists>m. urlsplit_netloc w sch (47 # 47 # r) = Inl (ValueError m)"
proof -
  let ?nl = "takeWhile (\<lambda>c. c \<noteq> 47 \<and> c \<noteq> 63 \<and> c \<noteq> 35) r"
  let ?rest = "dropWhile (\<lambda>c. c \<noteq> 47 \<and> c \<noteq> 63 \<and> c \<noteq> 35) r"
  show ?thesis
  proof (cases "checknetloc_raises w ?nl")
    case True
    have "urlsplit_netloc w sch (47 # 47 # r) = urlsplit_tail w sch ?nl ?rest
          \<or> (\<exists>m. urlsplit_netloc w sch (47 # 47 # r) = Inl (ValueError m))"
      by (simp add: urlsplit_netloc_def py_slashes splitnetloc_after_slashes)
    then show ?thesis using True urlsplit_tail_cases [of w sch ?nl ?rest] by auto
  next
    case False
    with assms show ?thesis
      by (auto simp add: urlsplit_netloc_def py_slashes splitnetloc_after_slashes netloc_rejected_def
        bracketed_host_def)
  qed
qed

lemma urlsplit_http:
  "urlsplit w (py ''http://'' @ r) = urlsplit_netloc w (py ''http'')
     (47 # 47 # filter (\<lambda>c. c \<noteq> 9 \<and> c \<noteq> 13 \<and> c \<noteq> 10) r)"
  unfolding urlsplit_def remove_chars_filter
  by (simp add: http_prefix_steps scheme_chars_http isascii_def isalpha_ascii_def Let_def)

lemma urlsplit_https:
  "urlsplit w (py ''https://'' @ r) = urlsplit_netloc w (py ''https'')
     (47 # 47 # filter (\<lambda>c. c \<noteq> 9 \<and> c \<noteq> 13 \<and> c \<noteq> 10) r)"
  unfolding urlsplit_def remove_chars_filter
  by (simp add: https_prefix_steps scheme_chars_http isascii_def isalpha_ascii_def Let_def)

subsection \<open>What \<open>clean_shopify_url\<close> returns\<close>

lemma authority_filter:
  "takeWhile (\<lambda>c. c \<noteq> 47 \<and> c \<noteq> 63 \<and> c \<noteq> 35) (filter (\<lambda>c. c \<noteq> 9 \<and> c \<noteq> 13 \<and> c \<noteq> 10) r)
   = authority r"
  by (simp add: authority_def)

lemma urlsplit_scheme_ok:
  assumes "s = py ''http'' \<or> s = py ''https''" and "\<not> netloc_rejected w (authority r)"
  shows "\<exists>p q f. urlsplit w (s @ py ''://'' @ r)
     = Inr \<lparr>scheme = s, netloc = authority r, path = p, query = q, fragment = f\<rparr>"
proof -
  have pre: "py ''http'' @ py ''://'' @ r = py ''http://'' @ r"
            "py ''https'' @ py ''://'' @ r = py ''https://'' @ r"
    by (simp_all add: py_def)
  from assms(1) show ?thesis
  proof
    assume "s = py ''http''"
    then show ?thesis
      using urlsplit_netloc_ok [of w "filter (\<lambda>c. c \<noteq> 9 \<and> c \<noteq> 13 \<and> c \<noteq> 10) r" "py ''http''"] assms(2)
      by (simp add: pre urlsplit_http authority_filter)
  next
    assume "s = py ''https''"
    then show ?thesis
      using urlsplit_netloc_ok [of w "filter (\<lambda>c. c \<noteq> 9 \<and> c \<noteq> 13 \<and> c \<noteq> 10) r" "py ''https''"] assms(2)
      by (simp add: pre urlsplit_https authority_filter)
  qed
qed

lemma urlsplit_scheme_rejected:
  assumes "s = py ''http'' \<or> s = py ''https''" and "netloc_rejected w (authority r)"
  shows "\<exists>m. urlsplit w (s @ py ''://'' @ r) = Inl (ValueError m)"
proof -
  have pre: "py ''http'' @ py ''://'' @ r = py ''http://'' @ r"
            "py ''https'' @ py ''://'' @ r = py ''https://'' @ r"
    by (simp_all add: py_def)
  from assms(1) show ?thesis
  proof
    assume "s = py ''http''"
    then show ?thesis
      using urlsplit_netloc_rejected [of w "filter (\<lambda>c. c \<noteq> 9 \<and> c \<noteq> 13 \<and> c \<noteq> 10) r" "py ''http''"] assms(2)
      by (simp add: pre urlsplit_http authority_filter)
  next
    assume "s = py ''https''"
    then show ?thesis
      using urlsplit_netloc_rejected [of w "filter (\<lambda>c. c \<noteq> 9 \<and> c \<noteq> 13 \<and> c \<noteq> 10) r" "py ''https''"] assms(2)
      by (simp add: pre urlsplit_https authority_filter)
  qed
qed

lemma startswith_split: "startswith u p \<Longrightarrow> u = p @ drop (length p) u"
  by (auto simp: startswith_def prefix_def)

text \<open>The URL handed to \<open>urlparse\<close> is the scheme, \<open>://\<close> and the rest.\<close>

lemma url_parts_scheme:
  "fst (url_parts x) = py ''http'' \<or> fst (url_parts x) = py ''https''"
  by (simp add: url_parts_def Let_def)

lemma clean_shopify_url_urlsplit:
  "clean_shopify_url w x =
     (case urlsplit w (fst (url_parts x) @ py ''://'' @ snd (url_parts x)) of
        Inl e \<Rightarrow> Inl e
      | Inr parsed \<Rightarrow> Inr (scheme parsed @ py ''://'' @ netloc parsed))"
proof -
  let ?u = "strip x"
  have l: "length (py ''http://'') = 7" "length (py ''https://'') = 8"
    by (simp_all add: py_def)
  have pre: "py ''http'' @ py ''://'' @ r = py ''http://'' @ r"
            "py ''https'' @ py ''://'' @ r = py ''https://'' @ r" for r
    by (simp_all add: py_def)
  consider (a) "startswith ?u (py ''http://'')"
    | (b) "\<not> startswith ?u (py ''http://'')" "startswith ?u (py ''https://'')"
    | (c) "\<not> startswith ?u (py ''http://'')" "\<not> startswith ?u (py ''https://'')"
    by blast
  then show ?thesis
  proof cases
    case a
    from startswith_split [OF a] have "py ''http://'' @ drop 7 ?u = ?u" by (simp add: l)
    with a show ?thesis
      by (simp add: clean_shopify_url_def url_parts_def Let_def pre)
  next
    case b
    from startswith_split [OF b(2)] have "py ''https://'' @ drop 8 ?u = ?u" by (simp add: l)
    with b show ?thesis
      by (simp add: clean_shopify_url_def url_parts_def Let_def pre)
  next
    case c
    then show ?thesis
      by (simp add: clean_shopify_url_def url_parts_def Let_def pre)
  qed
qed

lemma clean_shopify_url_ok:
  assumes "\<not> netloc_rejected w (authority (snd (url_parts x)))"
  shows "clean_shopify_url w x = Inr (fst (url_parts x) @ py ''://'' @ authority (snd (url_parts x)))"
  using urlsplit_scheme_ok [OF url_parts_scheme [of x] assms]
  by (auto simp add: clean_shopify_url_urlsplit)

lemma clean_shopify_url_rejected:
  assumes "netloc_rejected w (authority (snd (url_parts x)))"
  shows "\<exists>m. clean_shopify_url w x = Inl (ValueError m)"
  using urlsplit_scheme_rejected [OF url_parts_scheme [of x] assms]
  by (auto simp add: clean_shopify_url_urlsplit)

lemma authority_no_delims:
  "47 \<notin> set (authority r) \<and> 63 \<notin> set (authority r) \<and> 35 \<notin> set (authority r)"
  unfolding authority_def by (auto dest: set_takeWhileD)

lemma plain_netloc_accepted:
  "list_all isascii nl \<Longrightarrow> 91 \<notin> set nl \<Longrightarrow> 93 \<notin> set nl \<Longrightarrow> \<not> netloc_rejected w nl"
  by (simp add: netloc_rejected_def contains_def checknetloc_raises_def)

subsection \<open>Properties of the normalizer\<close>

lemma set_rstrip: "set (rstrip P xs) \<subseteq> set xs"
  unfolding rstrip_def using set_dropWhileD [of _ P "rev xs"] by auto

lemma rstrip_append_keep:
  "\<not> P (last pre) \<Longrightarrow> pre \<noteq> [] \<Longrightarrow> rstrip P (pre @ n) = pre @ rstrip P n"
proof -
  assume a: "\<not> P (last pre)" "pre \<noteq> []"
  then have h: "dropWhile P (rev pre) = rev pre"
    by (cases "rev pre") (auto simp: last_rev hd_rev [symmetric] dest!: arg_cong [where f = hd])
  show ?thesis
    unfolding rstrip_def by (simp add: dropWhile_append h)
qed

lemma rstrip_id: "xs \<noteq> [] \<Longrightarrow> \<not> P (last xs) \<Longrightarrow> rstrip P xs = xs"
  using rstrip_append_keep [of P xs "[]"] by (simp add: rstrip_def)

lemma origin_prefix:
  assumes "s = py ''http'' \<or> s = py ''https''"
  shows "s @ py ''://'' \<noteq> []" "last (s @ py ''://'') = 47" "hd (s @ py ''://'' @ n) = 104"
        "63 \<notin> set (s @ py ''://'')"
  using assms by (auto simp: py_def)

lemma strip_origin:
  assumes "s = py ''http'' \<or> s = py ''https''"
  shows "strip (s @ py ''://'' @ n) = s @ py ''://'' @ rstrip isspace n"
proof -
  have "lstrip isspace (s @ py ''://'' @ n) = s @ py ''://'' @ n"
    using assms by (auto simp: lstrip_def py_def isspace_def)
  moreover have "rstrip isspace ((s @ py ''://'') @ n) = (s @ py ''://'') @ rstrip isspace n"
    using origin_prefix(1,2) [OF assms] by (intro rstrip_append_keep) (simp_all add: isspace_def)
  ultimately show ?thesis by (simp add: strip_def)
qed

lemma url_parts_origin:
  assumes "s = py ''http'' \<or> s = py ''https''"
  shows "url_parts (s @ py ''://'' @ n) = (s, rstrip isspace n)"
  unfolding url_parts_def strip_origin [OF assms] Let_def
  using assms by (auto simp: startswith_def py_def)

lemma authority_chars:
  "c \<in> set (authority r) \<Longrightarrow> c \<noteq> 47 \<and> c \<noteq> 63 \<and> c \<noteq> 35 \<and> c \<noteq> 9 \<and> c \<noteq> 13 \<and> c \<noteq> 10"
  unfolding authority_def by (auto dest: set_takeWhileD)

lemma authority_id:
  "\<forall>c \<in> set n. c \<noteq> 47 \<and> c \<noteq> 63 \<and> c \<noteq> 35 \<and> c \<noteq> 9 \<and> c \<noteq> 13 \<and> c \<noteq> 10 \<Longrightarrow> authority n = n"
  unfolding authority_def by (simp add: filter_id_conv)

lemma authority_rstrip: "authority (rstrip isspace (authority r)) = rstrip isspace (authority r)"
  using set_rstrip [of isspace "authority r"] authority_chars [of _ r]
  by (intro authority_id) blast

lemma authority_authority: "authority (authority r) = authority r"
  using authority_chars [of _ r] by (intro authority_id) blast

text \<open>The shape of every result of the normalizer.\<close>

lemma clean_shopify_url_result:
  assumes "clean_shopify_url w x = Inr y"
  shows "\<not> netloc_rejected w (authority (snd (url_parts x)))"
    and "y = fst (url_parts x) @ py ''://'' @ authority (snd (url_parts x))"
proof -
  show r: "\<not> netloc_rejected w (authority (snd (url_parts x)))"
    using clean_shopify_url_rejected [of w x] assms by auto
  from clean_shopify_url_ok [OF r] assms
  show "y = fst (url_parts x) @ py ''://'' @ authority (snd (url_parts x))" by simp
qed

lemma clean_shopify_url_cases:
  "(\<exists>m. clean_shopify_url w x = Inl (ValueError m)) \<or> (\<exists>y. clean_shopify_url w x = Inr y)"
  using clean_shopify_url_rejected [of w x] clean_shopify_url_ok [of w x] by blast

lemma clean_shopify_url_plain:
  assumes "url_parts x = (s, r)" and "authority r = n"
      and "list_all isascii n" and "91 \<notin> set n" and "93 \<notin> set n"
  shows "clean_shopify_url w x = Inr (s @ py ''://'' @ n)"
  using clean_shopify_url_ok [of w x] plain_netloc_accepted [of n w] assms by simp

lemmas url_eval = url_parts_def strip_def lstrip_def rstrip_def isspace_def startswith_def
  authority_def isascii_def py_def Let_def

lemma clean_examples:
  "clean_shopify_url w (py ''example.com'') = Inr (py ''https://example.com'')"
  "clean_shopify_url w (py ''http://example.com/some/path?x=1'') = Inr (py ''http://example.com'')"
  "clean_shopify_url w (py ''a /b'') = Inr (py ''https://a '')"
  "clean_shopify_url w (py ''https://a '') = Inr (py ''https://a'')"
  "clean_shopify_url w (py ''/'') = Inr (py ''https://'')"
  "clean_shopify_url w (py ''myshop.com'') = Inr (py ''https://myshop.com'')"
proof -
  show "clean_shopify_url w (py ''example.com'') = Inr (py ''https://example.com'')"
    using clean_shopify_url_plain [of "py ''example.com''" "py ''https''" "py ''example.com''" "py ''example.com''" w]
    by (simp add: url_eval)
  show "clean_shopify_url w (py ''http://example.com/some/path?x=1'') = Inr (py ''http://example.com'')"
    using clean_shopify_url_plain [of "py ''http://example.com/some/path?x=1''" "py ''http''"
        "py ''example.com/some/path?x=1''" "py ''example.com''" w]
    by (simp add: url_eval)
  show "clean_shopify_url w (py ''a /b'') = Inr (py ''https://a '')"
    using clean_shopify_url_plain [of "py ''a /b''" "py ''https''" "py ''a /b''" "py ''a ''" w]
    by (simp add: url_eval)
  show "clean_shopify_url w (py ''https://a '') = Inr (py ''https://a'')"
    using clean_shopify_url_plain [of "py ''https://a ''" "py ''https''" "py ''a''" "py ''a''" w]
    by (simp add: url_eval)
  show "clean_shopify_url w (py ''/'') = Inr (py ''https://'')"
    using clean_shopify_url_plain [of "py ''/''" "py ''https''" "py ''/''" "[]" w]
    by (simp add: url_eval)
  show "clean_shopify_url w (py ''myshop.com'') = Inr (py ''https://myshop.com'')"
    using clean_shopify_url_plain [of "py ''myshop.com''" "py ''https''" "py ''myshop.com''" "py ''myshop.com''" w]
    by (simp add: url_eval)
qed

lemma clean_bracket:
  "clean_shopify_url w (py ''['') = Inl (ValueError (py ''Invalid IPv6 URL''))"
proof -
  have "url_parts (py ''['') = (py ''https'', py ''['')" by (simp add: url_eval)
  then have "clean_shopify_url w (py ''['') =
      (case urlsplit w (py ''https://'' @ py ''['') of Inl e \<Rightarrow> Inl e
       | Inr parsed \<Rightarrow> Inr (scheme parsed @ py ''://'' @ netloc parsed))"
    by (simp add: clean_shopify_url_urlsplit py_def)
  moreover have "urlsplit w (py ''https://'' @ py ''['') = Inl (ValueError (py ''Invalid IPv6 URL''))"
    unfolding urlsplit_https
    by (simp add: urlsplit_netloc_def py_slashes splitnetloc_after_slashes contains_def)
       (simp add: py_def)
  ultimately show ?thesis by simp
qed


text \<open>
  What the normalizer does with an input. It trims the input and takes \<open>http\<close> or \<open>https\<close>
  from its prefix, \<open>https\<close> when there is none. When \<open>urlparse\<close> accepts the netloc, the
  result is the scheme, \<open>://\<close> and the netloc, which is the text up to the first \<open>/\<close>, \<open>?\<close> or
  \<open>#\<close> with tabs and line breaks removed, so that no path, query or fragment is left; an
  ASCII netloc without brackets is always accepted, and the two examples of the
  specification hold. When \<open>urlparse\<close> rejects the netloc, the \<open>ValueError\<close> leaves the
  function.
\<close>

lemma clean_shopify_url_origin:
  "(netloc_rejected w (authority (snd (url_parts url_in))) \<longrightarrow>
      (\<exists>m. clean_shopify_url w url_in = Inl (ValueError m)))
   \<and> (\<not> netloc_rejected w (authority (snd (url_parts url_in))) \<longrightarrow>
      clean_shopify_url w url_in
        = Inr (fst (url_parts url_in) @ py ''://'' @ authority (snd (url_parts url_in))))
   \<and> (fst (url_parts url_in) = py ''http'' \<or> fst (url_parts url_in) = py ''https'')
   \<and> 47 \<notin> set (authority (snd (url_parts url_in)))
   \<and> 63 \<notin> set (authority (snd (url_parts url_in)))
   \<and> 35 \<notin> set (authority (snd (url_parts url_in)))
   \<and> (list_all isascii (authority (snd (url_parts url_in)))
        \<and> 91 \<notin> set (authority (snd (url_parts url_in)))
        \<and> 93 \<notin> set (authority (snd (url_parts url_in)))
      \<longrightarrow> \<not> netloc_rejected w (authority (snd (url_parts url_in))))
   \<and> clean_shopify_url w (py ''example.com'') = Inr (py ''https://example.com'')
   \<and> clean_shopify_url w (py ''http://example.com/some/path?x=1'') = Inr (py ''http://example.com'')"
  using clean_shopify_url_rejected [of w url_in] clean_shopify_url_ok [of w url_in]
    url_parts_scheme [of url_in] authority_no_delims [of "snd (url_parts url_in)"]
    plain_netloc_accepted [of "authority (snd (url_parts url_in))" w]
    clean_examples(1,2) [of w]
  by blast

lemma clean_shopify_url_origin_example:
  "\<not> netloc_rejected (world_of (Inl (Timeout [])) 5)
       (authority (snd (url_parts (py '' Shop.io/cart?x=1#top ''))))
   \<and> clean_shopify_url (world_of (Inl (Timeout [])) 5) (py '' Shop.io/cart?x=1#top '')
       = Inr (py ''https://Shop.io'')"
proof -
  have p: "url_parts (py '' Shop.io/cart?x=1#top '') = (py ''https'', py ''Shop.io/cart?x=1#top'')"
    by (simp add: url_eval)
  have a: "authority (py ''Shop.io/cart?x=1#top'') = py ''Shop.io''"
    by (simp add: url_eval)
  have r: "\<not> netloc_rejected (world_of (Inl (Timeout [])) 5) (py ''Shop.io'')"
    by (simp add: netloc_rejected_def contains_def checknetloc_raises_def isascii_def py_def)
  from clean_shopify_url_origin [of "world_of (Inl (Timeout [])) 5" "py '' Shop.io/cart?x=1#top ''"]
  show ?thesis
    unfolding p fst_conv snd_conv a using r by (simp add: py_def)
qed

text \<open>
  C2. The normalizer is to turn every input string into a scheme and a host. On the input
  \<open>[\<close> it does not: the trimmed input gets the prefix \<open>https://\<close>, \<open>urlparse\<close> finds the
  netloc \<open>[\<close> with no closing bracket and raises \<open>ValueError\<close>, and \<open>clean_shopify_url\<close> has
  no handler for it. The script has none either: it ends on that exception after the input
  box, with no message and nothing fetched.
\<close>

theorem clean_shopify_url_bracket_raises:
  "clean_shopify_url (world_of (Inl (Timeout [])) 5) (py ''['')
     = Inl (ValueError (py ''Invalid IPv6 URL''))
   \<and> script (world_of (Inl (Timeout [])) 5) (py ''['')
     = ([StSetPageConfig, StTitle ([128717, 65039] @ py '' Gridify''),
         StMarkdown (py ''Enter a Shopify store URL to visualize its product inventory.''),
         StTextInput],
        Some (ValueError (py ''Invalid IPv6 URL'')))"
proof -
  have "py ''['' \<noteq> []" by (simp add: py_def)
  then show ?thesis
    by (simp add: script_def Let_def clean_bracket)
qed

text \<open>
  C7, as the code has it. Applied to one of its own results \<open>y\<close>, the normalizer returns
  \<open>y\<close> itself when \<open>y\<close> has no white space at its end. In general a result it returns for
  \<open>y\<close> is \<open>y\<close> trimmed, and that one is returned unchanged from then on; the only other
  outcome is a \<open>ValueError\<close> of \<open>urlparse\<close>.
\<close>

theorem clean_shopify_url_reapplied:
  assumes "clean_shopify_url w url_in = Inr y"
  shows "(strip y = y \<longrightarrow> clean_shopify_url w y = Inr y)
       \<and> (\<forall>z. clean_shopify_url w y = Inr z \<longrightarrow> z = strip y \<and> clean_shopify_url w z = Inr z)
       \<and> (\<forall>e. clean_shopify_url w y = Inl e \<longrightarrow> (\<exists>m. e = ValueError m))"
proof -
  let ?s = "fst (url_parts url_in)" and ?n = "authority (snd (url_parts url_in))"
  note s = url_parts_scheme [of url_in]
  from clean_shopify_url_result [OF assms]
  have acc: "\<not> netloc_rejected w ?n" and y: "y = ?s @ py ''://'' @ ?n" by simp_all
  have parts: "url_parts y = (?s, rstrip isspace ?n)"
    unfolding y by (rule url_parts_origin [OF s])
  have sy: "strip y = ?s @ py ''://'' @ rstrip isspace ?n"
    unfolding y by (rule strip_origin [OF s])
  have again: "clean_shopify_url w y = Inr z \<Longrightarrow> z = strip y" for z
    using clean_shopify_url_result(2) [of w y z] by (simp add: parts authority_rstrip sy)
  have fixed: "strip y = y \<longrightarrow> clean_shopify_url w y = Inr y"
  proof
    assume "strip y = y"
    with sy y have "rstrip isspace ?n = ?n" by simp
    with acc have "\<not> netloc_rejected w (authority (snd (url_parts y)))"
      by (simp add: parts authority_authority)
    from clean_shopify_url_ok [OF this]
    have "clean_shopify_url w y
          = Inr (fst (url_parts y) @ py ''://'' @ authority (snd (url_parts y)))" .
    moreover have "fst (url_parts y) = ?s" by (simp add: parts)
    moreover have "authority (snd (url_parts y)) = ?n"
      using \<open>rstrip isspace ?n = ?n\<close> by (simp add: parts authority_authority)
    ultimately show "clean_shopify_url w y = Inr y" by (simp only: y [symmetric])
  qed
  have third: "clean_shopify_url w z = Inr z" if z: "clean_shopify_url w y = Inr z" for z
  proof -
    from again [OF z] have zs: "z = ?s @ py ''://'' @ rstrip isspace ?n" by (simp add: sy)
    from clean_shopify_url_result(1) [OF z]
    have r: "\<not> netloc_rejected w (rstrip isspace ?n)" by (simp add: parts authority_rstrip)
    have rr: "rstrip isspace (rstrip isspace ?n) = rstrip isspace ?n"
      by (simp add: rstrip_def)
    have pz: "url_parts z = (?s, rstrip isspace ?n)"
      unfolding zs using url_parts_origin [OF s, of "rstrip isspace ?n"] by (simp add: rr)
    have "\<not> netloc_rejected w (authority (snd (url_parts z)))"
      using r by (simp add: pz authority_rstrip)
    from clean_shopify_url_ok [OF this]
    have "clean_shopify_url w z
          = Inr (fst (url_parts z) @ py ''://'' @ authority (snd (url_parts z)))" .
    moreover have "fst (url_parts z) = ?s" by (simp add: pz)
    moreover have "authority (snd (url_parts z)) = rstrip isspace ?n"
      by (simp add: pz authority_rstrip)
    ultimately show ?thesis by (simp only: zs [symmetric])
  qed
  have err: "clean_shopify_url w y = Inl e \<Longrightarrow> \<exists>m. e = ValueError m" for e
    using clean_shopify_url_cases [of w y] by auto
  from fixed again third err show ?thesis by blast
qed


theorem clean_shopify_url_reapplied_witness:
  "clean_shopify_url (world_of (Inl (Timeout [])) 5) (py ''http://example.com/some/path?x=1'')
     = Inr (py ''http://example.com'')
   \<and> strip (py ''http://example.com'') = py ''http://example.com''
   \<and> clean_shopify_url (world_of (Inl (Timeout [])) 5) (py ''http://example.com'')
     = Inr (py ''http://example.com'')"
proof -
  have a: "clean_shopify_url (world_of (Inl (Timeout [])) 5) (py ''http://example.com/some/path?x=1'')
     = Inr (py ''http://example.com'')"
    by (rule clean_examples)
  have b: "strip (py ''http://example.com'') = py ''http://example.com''"
    by (simp add: url_eval)
  from clean_shopify_url_reapplied [OF a] b a show ?thesis by simp
qed

theorem clean_shopify_url_not_idempotent_counterexample:
  "clean_shopify_url (world_of (Inl (Timeout [])) 5) (py ''a /b'') = Inr (py ''https://a '')
   \<and> clean_shopify_url (world_of (Inl (Timeout [])) 5) (py ''https://a '') = Inr (py ''https://a'')
   \<and> py ''https://a '' \<noteq> py ''https://a''"
  using clean_examples(3,4) [of "world_of (Inl (Timeout [])) 5"] by (simp add: py_def)

lemma suffix_set: "suffix p z \<Longrightarrow> set p \<subseteq> set z"
  by (auto simp: suffix_def)

lemma rstrip_slash_scheme:
  assumes "s = py ''http'' \<or> s = py ''https''"
  shows "rstrip (\<lambda>c. c = 47) (s @ py ''://'') = s @ py '':''"
  using assms by (auto simp: rstrip_def py_def)

text \<open>
  C5, as the code has it. For every result of the normalizer the test on the suffix
  \<open>products.json?limit=1000\<close> fails, so the endpoint is the origin without its trailing
  slashes, followed by \<open>/products.json?limit=1000\<close>. That is the origin followed by
  \<open>/products.json?limit=1000\<close> when the netloc is not empty; an empty netloc leaves the scheme
  and a colon in front.
\<close>

theorem api_url_of_origin:
  assumes "clean_shopify_url w url_in = Inr origin"
  shows "\<not> endswith (rstrip (\<lambda>c. c = 47) origin) (py ''products.json?limit=1000'')
       \<and> api_url origin = rstrip (\<lambda>c. c = 47) origin @ py ''/products.json?limit=1000''
       \<and> (authority (snd (url_parts url_in)) \<noteq> [] \<longrightarrow>
            api_url origin = origin @ py ''/products.json?limit=1000'')
       \<and> (authority (snd (url_parts url_in)) = [] \<longrightarrow>
            api_url origin = fst (url_parts url_in) @ py '':/products.json?limit=1000'')"
proof -
  let ?s = "fst (url_parts url_in)" and ?n = "authority (snd (url_parts url_in))"
  let ?slash = "\<lambda>c::nat. c = 47"
  note s = url_parts_scheme [of url_in]
  from clean_shopify_url_result(2) [OF assms] have o: "origin = ?s @ py ''://'' @ ?n" .
  have "63 \<notin> set (?s @ py ''://'')" by (rule origin_prefix(4) [OF s])
  with authority_no_delims [of "snd (url_parts url_in)"] have "63 \<notin> set origin"
    unfolding o by simp
  with set_rstrip [of ?slash origin] have "63 \<notin> set (rstrip ?slash origin)" by blast
  moreover have "63 \<in> set (py ''products.json?limit=1000'')" by (simp add: py_def)
  ultimately have no: "\<not> endswith (rstrip ?slash origin) (py ''products.json?limit=1000'')"
    unfolding endswith_def using suffix_set by blast
  then have api: "api_url origin = rstrip ?slash origin @ py ''/products.json?limit=1000''"
    by (simp add: api_url_def Let_def)
  have full: "api_url origin = origin @ py ''/products.json?limit=1000''" if ne: "?n \<noteq> []"
  proof -
    from ne have "last ?n \<in> set ?n" by simp
    with authority_no_delims [of "snd (url_parts url_in)"] have "last ?n \<noteq> 47" by metis
    with ne have "rstrip ?slash origin = origin"
      unfolding o by (intro rstrip_id) simp_all
    with api show ?thesis by simp
  qed
  have empty: "api_url origin = ?s @ py '':/products.json?limit=1000''" if e: "?n = []"
  proof -
    from e o have "origin = ?s @ py ''://''" by simp
    with rstrip_slash_scheme [OF s] api show ?thesis by (simp add: py_def)
  qed
  from no api full empty show ?thesis by blast
qed

theorem api_url_of_origin_witness:
  "clean_shopify_url (world_of (Inl (Timeout [])) 5) (py ''myshop.com'') = Inr (py ''https://myshop.com'')
   \<and> \<not> endswith (rstrip (\<lambda>c. c = 47) (py ''https://myshop.com'')) (py ''products.json?limit=1000'')
   \<and> api_url (py ''https://myshop.com'') = py ''https://myshop.com/products.json?limit=1000''"
proof -
  have a: "clean_shopify_url (world_of (Inl (Timeout [])) 5) (py ''myshop.com'') = Inr (py ''https://myshop.com'')"
    by (rule clean_examples)
  have n: "authority (snd (url_parts (py ''myshop.com''))) \<noteq> []"
    by (simp add: url_eval)
  from api_url_of_origin [OF a] n
  have "\<not> endswith (rstrip (\<lambda>c. c = 47) (py ''https://myshop.com'')) (py ''products.json?limit=1000'')"
    and "api_url (py ''https://myshop.com'') = py ''https://myshop.com'' @ py ''/products.json?limit=1000''"
    by blast+
  moreover have "py ''https://myshop.com'' @ py ''/products.json?limit=1000''
                 = py ''https://myshop.com/products.json?limit=1000''"
    by (simp add: py_def)
  ultimately show ?thesis using a by simp
qed

theorem api_url_empty_host_counterexample:
  "clean_shopify_url (world_of (Inl (Timeout [])) 5) (py ''/'') = Inr (py ''https://'')
   \<and> api_url (py ''https://'') = py ''https:/products.json?limit=1000''
   \<and> api_url (py ''https://'') \<noteq> py ''https://'' @ py ''/products.json?limit=1000''"
proof -
  have "api_url (py ''https://'') = py ''https:/products.json?limit=1000''"
    by (simp add: api_url_def rstrip_def endswith_def py_def Let_def suffix_def)
  then show ?thesis
    using clean_examples(5) [of "world_of (Inl (Timeout [])) 5"] by (simp add: py_def)
qed

section \<open>The rendered grid\<close>

lemma cell_markup_append: "cell_markup (a @ b) = cell_markup a @ cell_markup b"
  by (induction a rule: cell_markup.induct) simp_all

lemma warnings_append: "warnings (a @ b) = warnings a @ warnings b"
  by (induction a rule: warnings.induct) simp_all

lemma successes_append: "successes (a @ b) = successes a @ successes b"
  by (induction a rule: successes.induct) simp_all

lemma entry_markup_triple:
  "entry_markup w (img_url, title, product_url)
     = [cell_title w title, cell_image w img_url product_url]"
  by (simp add: entry_markup_def)

lemma render_batch_ok:
  "idx + length b \<le> c \<Longrightarrow>
   snd (render_batch w c idx b) = None \<and>
   cell_markup (fst (render_batch w c idx b)) = concat (map (entry_markup w) b) \<and>
   warnings (fst (render_batch w c idx b)) = [] \<and>
   successes (fst (render_batch w c idx b)) = []"
proof (induction b arbitrary: idx)
  case Nil
  then show ?case by simp
next
  case (Cons e b)
  obtain img_url title product_url where e: "e = (img_url, title, product_url)"
    by (cases e) auto
  from Cons.prems have "Suc idx + length b \<le> c" and "idx < c" by simp_all
  with Cons.IH [of "Suc idx"] show ?case
    by (auto simp: e entry_markup_triple split: prod.splits)
qed

lemma render_rows_ok:
  "\<forall>b \<in> set bs. length b \<le> c \<Longrightarrow>
   snd (render_rows w c bs) = None \<and>
   cell_markup (fst (render_rows w c bs)) = concat (map (entry_markup w) (concat bs)) \<and>
   warnings (fst (render_rows w c bs)) = [] \<and>
   successes (fst (render_rows w c bs)) = []"
proof (induction bs)
  case Nil
  then show ?case by simp
next
  case (Cons b bs)
  from Cons.prems have "0 + length b \<le> c" by simp
  from render_batch_ok [OF this, of w] Cons.IH Cons.prems show ?case
    by (auto simp: cell_markup_append warnings_append successes_append split: prod.splits option.splits)
qed

lemma render_grid_ok:
  assumes "0 < c"
  shows "snd (render_rows w c (batches es c)) = None"
    and "cell_markup (fst (render_rows w c (batches es c))) = concat (map (entry_markup w) es)"
    and "warnings (fst (render_rows w c (batches es c))) = []"
    and "successes (fst (render_rows w c (batches es c))) = []"
proof -
  have b: "\<forall>b \<in> set (batches es c). length b \<le> c"
    using batches_nonempty_bounded [OF assms] by blast
  have cc: "concat (batches es c) = es"
    using concat_batches_from [OF assms refl, of es 0] by (simp add: batches_def)
  from render_rows_ok [OF b, of w] cc
  show "snd (render_rows w c (batches es c)) = None"
    and "cell_markup (fst (render_rows w c (batches es c))) = concat (map (entry_markup w) es)"
    and "warnings (fst (render_rows w c (batches es c))) = []"
    and "successes (fst (render_rows w c (batches es c))) = []"
    by simp_all
qed

text \<open>
  C9. For a column count from 2 to 8 the grid loop ends without an exception and emits, for
  the entries in order, the two pieces of markup of each entry and no other cell. For an
  entry of strings the markup is the fixed text of the source with the title put in twice,
  as the \<open>title\<close> attribute and as the text of the \<open>div\<close>, and the product URL and the image
  URL put in as \<open>href\<close> and \<open>src\<close>, each character for character: nothing is escaped.
\<close>

theorem grid_cells_verbatim:
  assumes "2 \<le> c" and "c \<le> 8"
  shows \<open>snd (render_rows w c (batches es c)) = None
       \<and> cell_markup (fst (render_rows w c (batches es c))) = concat (map (entry_markup w) es)
       \<and> entry_markup w (JStr img, JStr title, product_url)
          = [py ''<div style="text-align:center; margin:0; padding:0; font-size:0.9rem; overflow:hidden; text-overflow:ellipsis; white-space:nowrap;" title="''
               @ title @ py ''">'' @ title @ py ''</div>'',
             py ''<a href="'' @ product_url @ py ''" target="_blank"><img src="'' @ img
               @ py ''" style="width:100%; border-radius:6px;"></a>'']\<close>
proof -
  from assms have c: "0 < c" by simp
  from render_grid_ok(1,2) [OF c, of w es] show ?thesis
    by (simp add: entry_markup_triple cell_title_def cell_image_def)
qed

theorem grid_cells_verbatim_witness:
  \<open>(2::nat) \<le> 3 \<and> (3::nat) \<le> 8 \<and>
   cell_markup (fst (render_rows (world_of (Inl (Timeout [])) 3) 3
      (batches [(JStr (py ''i.png''), JStr (py ''<b>"x"</b>''), py ''https://s.io/products/mug'')] 3)))
   = [py ''<div style="text-align:center; margin:0; padding:0; font-size:0.9rem; overflow:hidden; text-overflow:ellipsis; white-space:nowrap;" title="<b>"x"</b>"><b>"x"</b></div>'',
      py ''<a href="https://s.io/products/mug" target="_blank"><img src="i.png" style="width:100%; border-radius:6px;"></a>'']\<close>
  using grid_cells_verbatim [of 3 "world_of (Inl (Timeout [])) 3"
      \<open>[(JStr (py ''i.png''), JStr (py ''<b>"x"</b>''), py ''https://s.io/products/mug'')]\<close>
      "py ''i.png''" \<open>py ''<b>"x"</b>''\<close> "py ''https://s.io/products/mug''"]
  by (simp add: entry_markup_def cell_title_def cell_image_def py_def)

section \<open>The script on an empty catalog\<close>

lemma fetch_output:
  "fst (fetch_shopify_products w b) = [] \<or> (\<exists>m. fst (fetch_shopify_products w b) = [StError m])"
  by (auto simp: fetch_shopify_products_def fetch_except_def split: sum.splits option.splits)

lemma fetch_output_quiet:
  assumes "fetch_shopify_products w b = (out, r)"
  shows "warnings out = []" and "cell_markup out = []" and "successes out = []"
  using fetch_output [of w b] assms by auto

lemma py_iter_len: "py_iter v = Inr xs \<Longrightarrow> py_len v = Inr (length xs)"
  by (cases v) auto

lemma extract_images_iter: "extract_images w v b = Inr es \<Longrightarrow> \<exists>xs. py_iter v = Inr xs"
  by (auto simp: extract_images_def split: sum.splits)

lemma script_after_clean:
  assumes "url_input \<noteq> []" and "clean_shopify_url w url_input = Inr cleaned_url"
      and "show_inventory w url_input cleaned_url = (out1, None)"
  shows "snd (script w url_input) = None"
    and "warnings (fst (script w url_input)) = warnings out1"
    and "cell_markup (fst (script w url_input)) = cell_markup out1"
    and "successes (fst (script w url_input)) = successes out1"
  using assms
  by (simp_all add: script_def Let_def warnings_append cell_markup_append successes_append)

lemma show_inventory_none:
  assumes "url_input \<noteq> []" and "fetch_shopify_products w cleaned_url = (out, Inr products)"
      and "\<not> truthy products"
  shows "show_inventory w url_input cleaned_url = (out @ [StWarning no_products_warning], None)"
  using assms by (simp add: show_inventory_def)

lemma show_inventory_no_images:
  assumes "fetch_shopify_products w cleaned_url = (out, Inr products)"
      and "truthy products" and "extract_images w products cleaned_url = Inr []"
      and "0 < slider w"
  shows "\<exists>n. py_len products = Inr n \<and>
           show_inventory w url_input cleaned_url
             = (out @ [StSuccess (py ''Found '' @ str_nat n @ py '' products.''), StSlider 2 8 5], None)"
proof -
  from extract_images_iter [OF assms(3)] obtain xs where "py_iter products = Inr xs" ..
  from py_iter_len [OF this] have n: "py_len products = Inr (length xs)" .
  have "batches ([]::entry list) (slider w) = []"
    by (simp add: batches_def range_step.simps)
  with assms n show ?thesis
    by (simp add: show_inventory_def Let_def)
qed

lemma fetch_ok_object:
  "fetch_shopify_products (world_of (Inr (ok_response (JObj [(py ''products'', v)]))) c) b = ([], Inr v)"
  by (simp add: fetch_shopify_products_def world_of_def ok_response_def raise_for_status_def)

text \<open>
  C8, as the code has it. The input box being filled and the URL normalized, take a fetch
  that returns, after a recovered failure too. When the products are empty (false for
  \<open>if products\<close>), the script shows the "No products found" warning, renders no cell and
  ends without an exception. When products are returned but no image is extracted from
  them, the script renders no cell and ends without an exception, but it shows no warning:
  it shows the message "Found n products." instead.
\<close>

theorem empty_catalog_notice:
  assumes "url_input \<noteq> []"
      and "clean_shopify_url w url_input = Inr cleaned_url"
      and "fetch_shopify_products w cleaned_url = (out, Inr products)"
  shows "(\<not> truthy products \<longrightarrow>
            snd (script w url_input) = None
          \<and> warnings (fst (script w url_input)) = [no_products_warning]
          \<and> cell_markup (fst (script w url_input)) = []
          \<and> successes (fst (script w url_input)) = [])
       \<and> (truthy products \<and> extract_images w products cleaned_url = Inr []
            \<and> 2 \<le> slider w \<and> slider w \<le> 8 \<longrightarrow>
            snd (script w url_input) = None
          \<and> warnings (fst (script w url_input)) = []
          \<and> cell_markup (fst (script w url_input)) = []
          \<and> (\<exists>n. py_len products = Inr n \<and>
                 successes (fst (script w url_input))
                   = [py ''Found '' @ str_nat n @ py '' products.'']))"
proof (intro conjI impI)
  note q = fetch_output_quiet [OF assms(3)]
  {
    assume f: "\<not> truthy products"
    note s = script_after_clean [OF assms(1,2) show_inventory_none [OF assms(1,3) f]]
    show "snd (script w url_input) = None" by (rule s(1))
    show "warnings (fst (script w url_input)) = [no_products_warning]"
      by (simp add: s(2) warnings_append q)
    show "cell_markup (fst (script w url_input)) = []"
      by (simp add: s(3) cell_markup_append q)
    show "successes (fst (script w url_input)) = []"
      by (simp add: s(4) successes_append q)
  }
  {
    assume t: "truthy products \<and> extract_images w products cleaned_url = Inr []
               \<and> 2 \<le> slider w \<and> slider w \<le> 8"
    then have "0 < slider w" by simp
    from show_inventory_no_images [OF assms(3) _ _ this, of url_input] t
    obtain n where n: "py_len products = Inr n"
      and sh: "show_inventory w url_input cleaned_url
             = (out @ [StSuccess (py ''Found '' @ str_nat n @ py '' products.''), StSlider 2 8 5], None)"
      by blast
    note s = script_after_clean [OF assms(1,2) sh]
    show "snd (script w url_input) = None" by (rule s(1))
    show "warnings (fst (script w url_input)) = []"
      by (simp add: s(2) warnings_append q)
    show "cell_markup (fst (script w url_input)) = []"
      by (simp add: s(3) cell_markup_append q)
    show "\<exists>n. py_len products = Inr n \<and>
            successes (fst (script w url_input)) = [py ''Found '' @ str_nat n @ py '' products.'']"
      using n by (simp add: s(4) successes_append q)
  }
qed


theorem empty_catalog_notice_witness:
  "py ''myshop.com'' \<noteq> []
   \<and> clean_shopify_url (world_of (Inr (ok_response (JObj [(py ''products'', JArr [])]))) 5)
        (py ''myshop.com'') = Inr (py ''https://myshop.com'')
   \<and> fetch_shopify_products (world_of (Inr (ok_response (JObj [(py ''products'', JArr [])]))) 5)
        (py ''https://myshop.com'') = ([], Inr (JArr []))
   \<and> \<not> truthy (JArr [])
   \<and> snd (script (world_of (Inr (ok_response (JObj [(py ''products'', JArr [])]))) 5)
        (py ''myshop.com'')) = None
   \<and> warnings (fst (script (world_of (Inr (ok_response (JObj [(py ''products'', JArr [])]))) 5)
        (py ''myshop.com''))) = [no_products_warning]
   \<and> cell_markup (fst (script (world_of (Inr (ok_response (JObj [(py ''products'', JArr [])]))) 5)
        (py ''myshop.com''))) = []"
proof -
  let ?w = "world_of (Inr (ok_response (JObj [(py ''products'', JArr [])]))) 5"
  have a: "py ''myshop.com'' \<noteq> []" by (simp add: py_def)
  have b: "clean_shopify_url ?w (py ''myshop.com'') = Inr (py ''https://myshop.com'')"
    by (rule clean_examples)
  have c: "fetch_shopify_products ?w (py ''https://myshop.com'') = ([], Inr (JArr []))"
    by (rule fetch_ok_object)
  from empty_catalog_notice [OF a b c] a b c show ?thesis by simp
qed

text \<open>
  A catalog with one product that has no image: no entry is extracted, and the script shows
  the success message and no warning.
\<close>

theorem no_images_no_notice_counterexample:
  "extract_images
     (world_of (Inr (ok_response (JObj [(py ''products'',
        JArr [JObj [(py ''title'', JStr (py ''Cap'')), (py ''images'', JArr [])]])]))) 5)
     (JArr [JObj [(py ''title'', JStr (py ''Cap'')), (py ''images'', JArr [])]])
     (py ''https://myshop.com'') = Inr []
   \<and> warnings (fst (script
     (world_of (Inr (ok_response (JObj [(py ''products'',
        JArr [JObj [(py ''title'', JStr (py ''Cap'')), (py ''images'', JArr [])]])]))) 5)
     (py ''myshop.com''))) = []
   \<and> successes (fst (script
     (world_of (Inr (ok_response (JObj [(py ''products'',
        JArr [JObj [(py ''title'', JStr (py ''Cap'')), (py ''images'', JArr [])]])]))) 5)
     (py ''myshop.com''))) = [py ''Found 1 products.'']"
proof -
  let ?ps = "JArr [JObj [(py ''title'', JStr (py ''Cap'')), (py ''images'', JArr [])]]"
  let ?w = "world_of (Inr (ok_response (JObj [(py ''products'', ?ps)]))) 5"
  have a: "py ''myshop.com'' \<noteq> []" by (simp add: py_def)
  have b: "clean_shopify_url ?w (py ''myshop.com'') = Inr (py ''https://myshop.com'')"
    by (rule clean_examples)
  have c: "fetch_shopify_products ?w (py ''https://myshop.com'') = ([], Inr ?ps)"
    by (rule fetch_ok_object)
  have d: "extract_images ?w ?ps (py ''https://myshop.com'') = Inr []"
    by (simp add: extract_images_def extract_product_def py_def)
  have e: "0 < slider ?w" by (simp add: world_of_def)
  have t: "truthy ?ps" by simp
  from show_inventory_no_images [OF c t d e, of "py ''myshop.com''"]
  have sh: "show_inventory ?w (py ''myshop.com'') (py ''https://myshop.com'')
        = ([] @ [StSuccess (py ''Found '' @ str_nat 1 @ py '' products.''), StSlider 2 8 5], None)"
    by simp
  note s = script_after_clean [OF a b sh]
  have "py ''Found '' @ str_nat 1 @ py '' products.'' = py ''Found 1 products.''"
    by (simp add: py_def)
  with s d show ?thesis by simp
qed

end
